theory Spec2Isabelle
  imports Complex_Main "HOL-Library.Log_Nat"
begin

section \<open>Python floats: IEEE 754 binary64 with round-to-nearest-even\<close>

text \<open>
  The simulation of \<^verbatim>\<open>streamlit_app.py\<close> mixes Python integers (unbounded) with
  Python floats and \<^verbatim>\<open>numpy.float64\<close> values, both IEEE 754 binary64. A finite double
  is modelled by the real number it denotes; every arithmetic operation computes the
  exact real result and rounds it with \<open>rnd\<close> (53 significant bits, subnormals below
  \<open>2 powi - 1022\<close>, ties to even). A result beyond the largest double is an infinity; in
  the simulation loop every such result is the argument of \<^verbatim>\<open>int(...)\<close>, which raises
  \<^verbatim>\<open>OverflowError\<close>, so it is modelled as that error.
\<close>

definition flog2 :: "real \<Rightarrow> int" where
  \<comment> \<open>the binary exponent of a positive real: \<open>2 powi flog2 x \<le> x < 2 powi (flog2 x + 1)\<close>\<close>
  "flog2 x = (if 1 \<le> x then int (floorlog 2 (nat \<lfloor>x\<rfloor>)) - 1
              else - int (floorlog 2 (nat (\<lceil>1 / x\<rceil> - 1))))"

definition rne :: "real \<Rightarrow> int" where
  \<comment> \<open>round to the nearest integer, ties to the even one\<close>
  "rne x = (let f = \<lfloor>x\<rfloor>; d = x - of_int f in
            if d < 1 / 2 then f else if 1 / 2 < d then f + 1
            else if even f then f else f + 1)"

definition ulp_exp :: "real \<Rightarrow> int" where
  \<comment> \<open>exponent of the unit in the last place of the binade of \<open>x\<close>\<close>
  "ulp_exp x = max (flog2 \<bar>x\<bar>) (- 1022) - 52"

definition rnd :: "real \<Rightarrow> real" where
  "rnd x = (if x = 0 then 0
            else of_int (rne (x / 2 powi ulp_exp x)) * 2 powi ulp_exp x)"

definition dbl_max :: real where
  "dbl_max = (2 ^ 53 - 1) * 2 ^ 971"

datatype py_error = OverflowError | ZeroDivisionError | IndexError

definition and_then :: "py_error + 'a \<Rightarrow> ('a \<Rightarrow> py_error + 'b) \<Rightarrow> py_error + 'b" where
  "and_then m f = (case m of Inl e \<Rightarrow> Inl e | Inr v \<Rightarrow> f v)"

definition finite_double :: "real \<Rightarrow> py_error + real" where
  \<comment> \<open>the rounded result of an operation, an infinity being an \<^verbatim>\<open>OverflowError\<close>\<close>
  "finite_double x = (let r = rnd x in if dbl_max < \<bar>r\<bar> then Inl OverflowError else Inr r)"

definition float_of_int :: "int \<Rightarrow> py_error + real" where
  \<comment> \<open>the conversion of the integer operand of \<^verbatim>\<open>n * c\<close>: correctly rounded,
      \<^verbatim>\<open>OverflowError\<close> when the integer is too large\<close>
  "float_of_int n = finite_double (of_int n)"

definition py_int :: "real \<Rightarrow> int" where
  \<comment> \<open>\<^verbatim>\<open>int(x)\<close> of a finite float: truncation toward zero\<close>
  "py_int x = (if 0 \<le> x then \<lfloor>x\<rfloor> else \<lceil>x\<rceil>)"

definition int_mul_float :: "int \<Rightarrow> real \<Rightarrow> py_error + int" where
  \<comment> \<open>\<^verbatim>\<open>int(n * c)\<close> for an integer \<open>n\<close> and a float \<open>c\<close>\<close>
  "int_mul_float n c =
     and_then (float_of_int n) (\<lambda>a.
     and_then (finite_double (a * c)) (\<lambda>r. Inr (py_int r)))"

definition int_truediv :: "int \<Rightarrow> int \<Rightarrow> py_error + real" where
  \<comment> \<open>\<^verbatim>\<open>a / b\<close> on two integers: the correctly rounded quotient\<close>
  "int_truediv a b =
     (if b = 0 then Inl ZeroDivisionError else finite_double (of_int a / of_int b))"

definition py_index :: "'a list \<Rightarrow> int \<Rightarrow> py_error + 'a" where
  \<comment> \<open>\<^verbatim>\<open>xs[i]\<close>: a negative index counts from the end\<close>
  "py_index xs i =
     (if 0 \<le> i \<and> i < int (length xs) then Inr (xs ! nat i)
      else if i < 0 \<and> - int (length xs) \<le> i then Inr (xs ! nat (int (length xs) + i))
      else Inl IndexError)"

definition np_exp :: "real \<Rightarrow> real option" where
  \<comment> \<open>\<^verbatim>\<open>numpy.exp\<close> on a finite double, taken as the correctly rounded exponential;
      \<open>None\<close> is the result \<^verbatim>\<open>inf\<close> of an overflow\<close>
  "np_exp x = (let r = rnd (exp x) in if dbl_max < r then None else Some r)"

section \<open>The simulation\<close>

text \<open>
  \<^verbatim>\<open>get_female_ratio(temp, pivotal_temp=29.0, transition=0.5)\<close> is only ever called
  with its two defaults, which are fixed here. With \<^verbatim>\<open>numpy.exp\<close> overflowing to
  \<^verbatim>\<open>inf\<close> the quotient \<^verbatim>\<open>1 / (1 + inf)\<close> is \<open>0.0\<close>.
\<close>

definition pivotal_temp :: real where
  "pivotal_temp = 29"

definition transition :: real where
  "transition = 1 / 2"

definition get_female_ratio :: "real \<Rightarrow> real" where
  "get_female_ratio temp =
     (case np_exp (rnd (- transition * rnd (temp - pivotal_temp))) of
        None \<Rightarrow> 0
      | Some e \<Rightarrow> rnd (1 / rnd (1 + e)))"

text \<open>The module constants read by \<^verbatim>\<open>simulate_population\<close>.\<close>

record params =
  initial_population :: int
  carrying_capacity :: int
  maturity_age :: int
  hatchling_survival_rate :: real
  adult_mortality_rate :: real
  female_mortality_rate :: real
  male_mortality_rate_warm :: real
  average_eggs_per_female :: int

definition source_params :: params where
  \<comment> \<open>the values of the source; a decimal literal denotes the nearest double\<close>
  "source_params =
     \<lparr> initial_population = 500,
       carrying_capacity = 2000,
       maturity_age = 4,
       hatchling_survival_rate = rnd (8 / 10),
       adult_mortality_rate = rnd (1 / 10),
       female_mortality_rate = rnd (5 / 100),
       male_mortality_rate_warm = rnd (2 / 10),
       average_eggs_per_female = 100 \<rparr>"

definition initial_males :: "params \<Rightarrow> int" where
  "initial_males p = initial_population p div 2"

definition initial_females :: "params \<Rightarrow> int" where
  "initial_females p = initial_population p div 2"

record sim_state =
  males :: int
  females :: int
  male_counts :: "int list"
  female_counts :: "int list"
  total_population :: "int list"

definition initial_state :: "params \<Rightarrow> sim_state" where
  "initial_state p =
     \<lparr> males = initial_males p,
       females = initial_females p,
       male_counts = [initial_males p],
       female_counts = [initial_females p],
       total_population = [initial_males p + initial_females p] \<rparr>"

definition mature_females :: "params \<Rightarrow> int list \<Rightarrow> int \<Rightarrow> py_error + int" where
  \<comment> \<open>\<^verbatim>\<open>female_counts[-maturity_age] if len(female_counts) >= maturity_age else females\<close>\<close>
  "mature_females p fc fem =
     (if maturity_age p \<le> int (length fc) then py_index fc (- maturity_age p) else Inr fem)"

definition reproduction :: "params \<Rightarrow> int \<Rightarrow> int \<Rightarrow> real \<Rightarrow> py_error + int \<times> int" where
  \<comment> \<open>lines 59 and 64 to 72: the new males and the new females\<close>
  "reproduction p mature ms female_ratio =
     (let male_ratio = rnd (1 - female_ratio);
          reproducing_pairs = min mature ms;
          potential_offspring = reproducing_pairs * average_eggs_per_female p
      in and_then (int_mul_float potential_offspring (hatchling_survival_rate p))
           (\<lambda>surviving_offspring.
         and_then (int_mul_float surviving_offspring male_ratio) (\<lambda>new_males.
         and_then (int_mul_float surviving_offspring female_ratio) (\<lambda>new_females.
         Inr (new_males, new_females)))))"

definition collapse_guard :: "int \<Rightarrow> int \<times> int \<times> int \<Rightarrow> py_error + int \<times> int \<times> int" where
  \<comment> \<open>lines 75 to 78, on (new males, new females, females)\<close>
  "collapse_guard ms v =
     (case v of (new_males, new_females, fem) \<Rightarrow>
        if ms \<le> 5
        then and_then (int_mul_float fem (rnd (85 / 100))) (\<lambda>fem'.
             Inr (max 0 (new_males div 2), max 0 (new_females div 2), fem'))
        else Inr (new_males, new_females, fem))"

definition mortality :: "params \<Rightarrow> bool \<Rightarrow> int \<times> int \<Rightarrow> py_error + int \<times> int" where
  \<comment> \<open>lines 81 to 85, on (males, females)\<close>
  "mortality p cooling v =
     (case v of (ms, fem) \<Rightarrow>
        and_then (int_mul_float ms
           (rnd (1 - (if \<not> cooling then male_mortality_rate_warm p
                      else adult_mortality_rate p)))) (\<lambda>ms'.
        and_then (int_mul_float fem (rnd (1 - adult_mortality_rate p))) (\<lambda>fem'.
        if cooling
        then and_then (int_mul_float fem' (rnd (1 - female_mortality_rate p))) (\<lambda>fem''.
             Inr (ms', fem''))
        else Inr (ms', fem'))))"

definition extinction_rule :: "int \<times> int \<Rightarrow> int \<times> int" where
  \<comment> \<open>lines 92 and 93\<close>
  "extinction_rule v = (case v of (ms, fem) \<Rightarrow> if ms = 0 then (ms, 0) else (ms, fem))"

definition capacity_constraint :: "params \<Rightarrow> int \<times> int \<Rightarrow> py_error + int \<times> int" where
  \<comment> \<open>lines 96 to 100; the females are scaled first\<close>
  "capacity_constraint p v =
     (case v of (ms, fem) \<Rightarrow>
        (let total = ms + fem in
         if carrying_capacity p < total
         then and_then (int_truediv (carrying_capacity p) total) (\<lambda>scale.
              and_then (int_mul_float fem scale) (\<lambda>fem'.
              and_then (int_mul_float ms scale) (\<lambda>ms'.
              Inr (ms', fem'))))
         else Inr (ms, fem)))"

definition record_counts :: "sim_state \<Rightarrow> int \<times> int \<Rightarrow> sim_state" where
  \<comment> \<open>lines 104 to 106\<close>
  "record_counts st v =
     (case v of (ms, fem) \<Rightarrow>
        \<lparr> males = ms, females = fem,
          male_counts = male_counts st @ [ms],
          female_counts = female_counts st @ [fem],
          total_population = total_population st @ [ms + fem] \<rparr>)"

definition step :: "params \<Rightarrow> bool \<Rightarrow> real \<Rightarrow> sim_state \<Rightarrow> py_error + sim_state" where
  \<comment> \<open>one iteration of the loop body, lines 58 to 106\<close>
  "step p cooling temp st =
     (let female_ratio = get_female_ratio temp in
      and_then (mature_females p (female_counts st) (females st)) (\<lambda>mature.
      and_then (reproduction p mature (males st) female_ratio) (\<lambda>(new_males, new_females).
      and_then (collapse_guard (males st) (new_males, new_females, females st))
        (\<lambda>(new_males', new_females', fem).
      and_then (mortality p cooling (males st, fem)) (\<lambda>(ms', fem').
      and_then (capacity_constraint p
                  (extinction_rule (ms' + new_males', fem' + new_females')))
        (\<lambda>v. Inr (record_counts st v)))))))"

fun sim_loop :: "params \<Rightarrow> bool \<Rightarrow> real list \<Rightarrow> sim_state \<Rightarrow> py_error + sim_state" where
  "sim_loop p cooling [] st = Inr st"
| "sim_loop p cooling (temp # rest) st =
     (if males st < 1 \<or> females st < 1 then Inr st
      else and_then (step p cooling temp st) (sim_loop p cooling rest))"

definition simulate_population ::
  "params \<Rightarrow> real list \<Rightarrow> bool \<Rightarrow> py_error + real list \<times> int list \<times> int list \<times> int list" where
  "simulate_population p temp_range cooling =
     and_then (sim_loop p cooling temp_range (initial_state p)) (\<lambda>st.
     Inr (take (length (male_counts st)) temp_range,
          male_counts st, female_counts st, total_population st))"

section \<open>Properties of the rounding function\<close>

subsection \<open>The binary exponent\<close>

lemma flog2_ge1:
  assumes "1 \<le> x"
  shows "2 powi flog2 x \<le> x \<and> x < 2 powi (flog2 x + 1)"
proof -
  define n where "n = nat \<lfloor>x\<rfloor>"
  define k where "k = floorlog 2 n"
  have n: "0 < n" "real n \<le> x" "x < real n + 1"
    using assms unfolding n_def by (auto simp: of_nat_nat)
  have b: "2 ^ (k - 1) \<le> n" "n < 2 ^ k"
    using floorlog_bounds[of n 2] n(1) unfolding k_def by auto
  have k: "0 < k" using n(1) unfolding k_def by (simp add: floorlog_def)
  have f: "flog2 x = int (k - 1)"
    using assms k unfolding flog2_def k_def n_def by simp
  have f1: "flog2 x + 1 = int k" using f k by simp
  have "2 powi flog2 x = (2::real) ^ (k - 1)" unfolding f by simp
  also have "\<dots> \<le> real n" using b(1)
    by (metis of_nat_le_iff of_nat_numeral of_nat_power)
  finally have lo: "2 powi flog2 x \<le> x" using n(2) by linarith
  have "n + 1 \<le> 2 ^ k" using b(2) by simp
  then have "real (n + 1) \<le> (2::real) ^ k"
    by (metis of_nat_le_iff of_nat_numeral of_nat_power)
  then have "x < 2 ^ k" using n(3) by simp
  then have hi: "x < 2 powi (flog2 x + 1)" unfolding f1 by simp
  show ?thesis using lo hi by simp
qed

lemma flog2_lt1:
  assumes "0 < x" "x < 1"
  shows "2 powi flog2 x \<le> x \<and> x < 2 powi (flog2 x + 1)"
proof -
  define y where "y = 1 / x"
  define n where "n = nat (\<lceil>y\<rceil> - 1)"
  define k where "k = floorlog 2 n"
  have y: "1 < y" using assms unfolding y_def by simp
  then have c: "2 \<le> \<lceil>y\<rceil>" by linarith
  have n: "0 < n" "real n < y" "y \<le> real n + 1"
    using c unfolding n_def by (auto simp: of_nat_nat) linarith+
  have b: "2 ^ (k - 1) \<le> n" "n < 2 ^ k"
    using floorlog_bounds[of n 2] n(1) unfolding k_def by auto
  have k: "0 < k" using n(1) unfolding k_def by (simp add: floorlog_def)
  have f: "flog2 x = - int k"
    using assms unfolding flog2_def k_def n_def y_def by simp
  have "n + 1 \<le> 2 ^ k" using b(2) by simp
  then have "real (n + 1) \<le> (2::real) ^ k"
    by (metis of_nat_le_iff of_nat_numeral of_nat_power)
  then have "y \<le> 2 ^ k" using n(3) by simp
  then have "1 / 2 ^ k \<le> x" using assms(1) unfolding y_def
    by (simp add: field_simps)
  then have lo: "2 powi flog2 x \<le> x"
    unfolding f by (simp add: power_int_minus_divide)
  have "(2::real) ^ (k - 1) \<le> real n" using b(1)
    by (metis of_nat_le_iff of_nat_numeral of_nat_power)
  then have "2 ^ (k - 1) < y" using n(2) by linarith
  then have "x < 1 / 2 ^ (k - 1)" using assms(1) unfolding y_def
    by (simp add: field_simps)
  moreover have "flog2 x + 1 = - int (k - 1)" using f k by simp
  ultimately have hi: "x < 2 powi (flog2 x + 1)"
    by (simp add: power_int_minus_divide)
  show ?thesis using lo hi by simp
qed

lemma flog2_bounds:
  assumes "0 < x"
  shows "2 powi flog2 x \<le> x" and "x < 2 powi (flog2 x + 1)"
  using flog2_ge1[of x] flog2_lt1[of x] assms by (cases "1 \<le> x"; simp)+

lemma pow2_less_iff: "(2::real) powi a < 2 powi b \<longleftrightarrow> a < b"
proof
  assume h: "(2::real) powi a < 2 powi b"
  show "a < b"
  proof (rule ccontr)
    assume "\<not> a < b"
    then have "b \<le> a" by simp
    then have "(2::real) powi b \<le> 2 powi a" by (intro power_int_increasing) auto
    with h show False by simp
  qed
next
  assume "a < b"
  then show "(2::real) powi a < 2 powi b" by (intro power_int_strict_increasing) auto
qed

lemma pow2_le_iff: "(2::real) powi a \<le> 2 powi b \<longleftrightarrow> a \<le> b"
  using pow2_less_iff[of b a] by (auto simp: not_less[symmetric])

lemma flog2_unique:
  assumes "0 < x" "2 powi e \<le> x" "x < 2 powi (e + 1)"
  shows "flog2 x = e"
proof -
  have "(2::real) powi e < 2 powi (flog2 x + 1)"
    using assms(2) flog2_bounds(2)[OF assms(1)] by linarith
  then have 1: "e < flog2 x + 1" by (simp only: pow2_less_iff)
  have "(2::real) powi flog2 x < 2 powi (e + 1)"
    using assms(3) flog2_bounds(1)[OF assms(1)] by linarith
  then have 2: "flog2 x < e + 1" by (simp only: pow2_less_iff)
  show ?thesis using 1 2 by linarith
qed

subsection \<open>Rounding to the nearest integer\<close>

lemma rne_of_int: "rne (of_int n) = n"
  by (simp add: rne_def)

lemma rne_lower: "real_of_int (rne x) \<ge> x - 1 / 2"
  unfolding rne_def Let_def by (auto; linarith)

lemma rne_upper: "real_of_int (rne x) \<le> x + 1 / 2"
  unfolding rne_def Let_def by (auto; linarith)

lemma rne_range: "\<lfloor>x\<rfloor> \<le> rne x \<and> rne x \<le> \<lfloor>x\<rfloor> + 1"
  unfolding rne_def Let_def by auto

lemma rne_mono:
  assumes "x \<le> y"
  shows "rne x \<le> rne y"
proof (cases "\<lfloor>x\<rfloor> = \<lfloor>y\<rfloor>")
  case True
  have "x - of_int \<lfloor>x\<rfloor> \<le> y - of_int \<lfloor>y\<rfloor>" using assms True by simp
  then show ?thesis unfolding rne_def Let_def True by auto
next
  case False
  then have "\<lfloor>x\<rfloor> + 1 \<le> \<lfloor>y\<rfloor>" using floor_mono[OF assms] by linarith
  then show ?thesis using rne_range[of x] rne_range[of y] by linarith
qed

lemma rne_minus: "rne (- x) = - rne x"
proof (cases "x = of_int \<lfloor>x\<rfloor>")
  case True
  then have "rne x = \<lfloor>x\<rfloor>" using rne_of_int by metis
  moreover have "rne (- x) = - \<lfloor>x\<rfloor>" using True rne_of_int[of "- \<lfloor>x\<rfloor>"] by (metis of_int_minus)
  ultimately show ?thesis by simp
next
  case False
  then have f: "\<lfloor>- x\<rfloor> = - \<lfloor>x\<rfloor> - 1"
    by (metis ceiling_altdef ceiling_def add_diff_cancel_right' minus_diff_eq uminus_add_conv_diff)
  have d: "- x - of_int \<lfloor>- x\<rfloor> = 1 - (x - of_int \<lfloor>x\<rfloor>)" unfolding f by simp
  show ?thesis unfolding rne_def Let_def d unfolding f by auto
qed

lemma rne_nearest:
  assumes "\<bar>x - of_int n\<bar> < 1 / 2"
  shows "rne x = n"
proof -
  have "real_of_int (rne x) - of_int n < 1" "real_of_int n - of_int (rne x) < 1"
    using rne_lower[of x] rne_upper[of x] assms by linarith+
  then have "rne x - n < 1" "n - rne x < 1" by linarith+
  then show ?thesis by linarith
qed

subsection \<open>Rounding to a double is monotone\<close>

lemma ulp_exp_minus: "ulp_exp (- x) = ulp_exp x"
  by (simp add: ulp_exp_def)

lemma rnd_zero: "rnd 0 = 0"
  by (simp add: rnd_def)

lemma rnd_minus: "rnd (- x) = - rnd x"
  by (simp add: rnd_def ulp_exp_minus rne_minus)

lemma rne_nonneg: "0 \<le> x \<Longrightarrow> 0 \<le> rne x"
  using rne_mono[of 0 x] rne_of_int[of 0] by simp

lemma rnd_nonneg: "0 \<le> x \<Longrightarrow> 0 \<le> rnd x"
  by (simp add: rnd_def rne_nonneg)

lemma pow2_split: "(2::real) powi (a + b) = 2 powi a * 2 powi b"
  by (simp add: power_int_add)

lemma pow2_diff: "(2::real) powi (a - b) = 2 powi a / 2 powi b"
  by (simp add: power_int_diff)

text \<open>The scaled significand of a positive real lies below \<open>2 ^ 53\<close>, and at or above
  \<open>2 ^ 52\<close> in the normal range.\<close>

lemma scaled_upper:
  assumes "0 < x"
  shows "x / 2 powi ulp_exp x < 2 ^ 53"
proof -
  have "flog2 x + 1 \<le> ulp_exp x + 53" using assms by (simp add: ulp_exp_def)
  then have "(2::real) powi (flog2 x + 1) \<le> 2 powi (ulp_exp x + 53)"
    by (simp only: pow2_le_iff)
  then have "x < 2 powi (ulp_exp x + 53)" using flog2_bounds(2)[OF assms] by linarith
  then have "x < 2 powi ulp_exp x * 2 ^ 53" by (simp add: pow2_split)
  then show ?thesis by (simp add: field_simps)
qed

lemma scaled_lower:
  assumes "0 < x" "- 1022 \<le> flog2 x"
  shows "2 ^ 52 \<le> x / 2 powi ulp_exp x"
proof -
  have e: "flog2 x = ulp_exp x + 52" using assms by (simp add: ulp_exp_def)
  have "2 powi (ulp_exp x + 52) \<le> x" using flog2_bounds(1)[OF assms(1)] unfolding e .
  then have "2 powi ulp_exp x * 2 ^ 52 \<le> x" by (simp add: pow2_split)
  then show ?thesis by (simp add: field_simps)
qed

lemma rnd_pos_upper:
  assumes "0 < x"
  shows "rnd x \<le> 2 powi (ulp_exp x + 53)"
proof -
  have "rne (x / 2 powi ulp_exp x) \<le> rne (of_int (2 ^ 53))"
    using scaled_upper[OF assms] by (intro rne_mono) simp
  then have "rne (x / 2 powi ulp_exp x) \<le> 2 ^ 53" by (simp only: rne_of_int)
  then have "real_of_int (rne (x / 2 powi ulp_exp x)) \<le> 2 ^ 53"
    by (metis of_int_le_iff of_int_numeral of_int_power)
  then have "real_of_int (rne (x / 2 powi ulp_exp x)) * 2 powi ulp_exp x
      \<le> 2 ^ 53 * 2 powi ulp_exp x"
    by (intro mult_right_mono) auto
  then show ?thesis using assms by (simp add: rnd_def pow2_split mult.commute)
qed

lemma rnd_pos_lower:
  assumes "0 < x" "- 1022 \<le> flog2 x"
  shows "2 powi (ulp_exp x + 52) \<le> rnd x"
proof -
  have "rne (of_int (2 ^ 52)) \<le> rne (x / 2 powi ulp_exp x)"
    using scaled_lower[OF assms] by (intro rne_mono) simp
  then have "2 ^ 52 \<le> rne (x / 2 powi ulp_exp x)" by (simp only: rne_of_int)
  then have "2 ^ 52 \<le> real_of_int (rne (x / 2 powi ulp_exp x))"
    by (metis of_int_le_iff of_int_numeral of_int_power)
  then have "2 ^ 52 * 2 powi ulp_exp x
      \<le> real_of_int (rne (x / 2 powi ulp_exp x)) * 2 powi ulp_exp x"
    by (intro mult_right_mono) auto
  then show ?thesis using assms by (simp add: rnd_def pow2_split mult.commute)
qed

lemma flog2_mono:
  assumes "0 < x" "x \<le> y"
  shows "flog2 x \<le> flog2 y"
proof -
  have y: "0 < y" using assms by simp
  have "(2::real) powi flog2 x < 2 powi (flog2 y + 1)"
    using flog2_bounds(1)[OF assms(1)] flog2_bounds(2)[OF y] assms(2) by linarith
  then have "flog2 x < flog2 y + 1" by (simp only: pow2_less_iff)
  then show ?thesis by simp
qed

lemma ulp_exp_mono:
  assumes "0 < x" "x \<le> y"
  shows "ulp_exp x \<le> ulp_exp y"
  using flog2_mono[OF assms] assms by (simp add: ulp_exp_def)

lemma rnd_mono_pos:
  assumes "0 < x" "x \<le> y"
  shows "rnd x \<le> rnd y"
proof (cases "ulp_exp x = ulp_exp y")
  case True
  have y: "0 < y" using assms by simp
  have "x / 2 powi ulp_exp y \<le> y / 2 powi ulp_exp y"
    using assms(2) by (simp add: divide_right_mono)
  then have "rne (x / 2 powi ulp_exp y) \<le> rne (y / 2 powi ulp_exp y)" by (rule rne_mono)
  then have "real_of_int (rne (x / 2 powi ulp_exp y)) * 2 powi ulp_exp y
      \<le> real_of_int (rne (y / 2 powi ulp_exp y)) * 2 powi ulp_exp y"
    by (intro mult_right_mono) auto
  then show ?thesis using assms y True by (simp add: rnd_def)
next
  case False
  have y: "0 < y" using assms by simp
  have lt: "ulp_exp x < ulp_exp y" using ulp_exp_mono[OF assms] False by simp
  then have n: "- 1022 \<le> flog2 y" using assms y unfolding ulp_exp_def by (simp add: max_def split: if_splits)
  have "rnd x \<le> 2 powi (ulp_exp x + 53)" by (rule rnd_pos_upper[OF assms(1)])
  also have "\<dots> \<le> 2 powi (ulp_exp y + 52)" using lt by (simp only: pow2_le_iff)
  also have "\<dots> \<le> rnd y" by (rule rnd_pos_lower[OF y n])
  finally show ?thesis .
qed

lemma rnd_mono:
  assumes "x \<le> y"
  shows "rnd x \<le> rnd y"
proof -
  consider "0 < x" | "x \<le> 0" "0 \<le> y" | "y < 0" by linarith
  then show ?thesis
  proof cases
    case 1
    then show ?thesis using rnd_mono_pos assms by simp
  next
    case 2
    have "0 \<le> rnd (- x)" using 2 by (intro rnd_nonneg) simp
    then have "rnd x \<le> 0" by (simp add: rnd_minus)
    then show ?thesis using rnd_nonneg[OF 2(2)] by linarith
  next
    case 3
    have "rnd (- y) \<le> rnd (- x)" using 3 assms by (intro rnd_mono_pos) auto
    then show ?thesis by (simp add: rnd_minus)
  qed
qed

subsection \<open>Doubles are fixed points of the rounding; the rounding error\<close>

lemma rnd_exact_pos:
  assumes "0 < m" "m < 2 ^ 53" "- 1074 \<le> e"
  shows "rnd (of_int m * 2 powi e) = of_int m * 2 powi e"
proof -
  define x where "x = real_of_int m * 2 powi e"
  have x: "0 < x" using assms(1) unfolding x_def by simp
  have "real_of_int m < 2 ^ 53" using assms(2)
    by (metis of_int_less_iff of_int_numeral of_int_power)
  then have "x < 2 ^ 53 * 2 powi e" unfolding x_def by (intro mult_strict_right_mono) auto
  then have "x < 2 powi (e + 53)" by (simp add: pow2_split mult.commute)
  then have "(2::real) powi flog2 x < 2 powi (e + 53)"
    using flog2_bounds(1)[OF x] by linarith
  then have "flog2 x < e + 53" by (simp only: pow2_less_iff)
  then have E: "ulp_exp x \<le> e" using assms(3) x by (simp add: ulp_exp_def)
  define k where "k = nat (e - ulp_exp x)"
  have "e = ulp_exp x + int k" using E unfolding k_def by simp
  then have "(2::real) powi e = 2 powi ulp_exp x * 2 powi int k"
    by (metis pow2_split)
  then have p: "(2::real) powi e = 2 powi ulp_exp x * 2 ^ k" by simp
  have xe: "x = real_of_int m * (2 powi ulp_exp x * 2 ^ k)"
    using x_def p by simp
  have "x / 2 powi ulp_exp x = real_of_int m * (2 powi ulp_exp x * 2 ^ k) / 2 powi ulp_exp x"
    using xe by simp
  also have "\<dots> = real_of_int (m * 2 ^ k)" by simp
  finally have s: "x / 2 powi ulp_exp x = real_of_int (m * 2 ^ k)" .
  have "rnd x = real_of_int (m * 2 ^ k) * 2 powi ulp_exp x"
    using x unfolding rnd_def s rne_of_int by simp
  also have "\<dots> = real_of_int m * (2 powi ulp_exp x * 2 ^ k)" by simp
  also have "\<dots> = x" using xe by (rule sym)
  finally show ?thesis unfolding x_def .
qed

lemma rnd_exact:
  assumes "\<bar>m\<bar> < 2 ^ 53" "- 1074 \<le> e"
  shows "rnd (of_int m * 2 powi e) = of_int m * 2 powi e"
proof -
  consider "0 < m" | "m = 0" | "m < 0" by linarith
  then show ?thesis
  proof cases
    case 1
    then show ?thesis using rnd_exact_pos[of m e] assms by simp
  next
    case 2
    then show ?thesis by (simp add: rnd_zero)
  next
    case 3
    then have "rnd (of_int (- m) * 2 powi e) = of_int (- m) * 2 powi e"
      using assms by (intro rnd_exact_pos) auto
    then have "rnd (- (of_int m * 2 powi e)) = - (of_int m * 2 powi e)" by simp
    then show ?thesis by (simp add: rnd_minus)
  qed
qed

lemma rnd_of_int:
  assumes "\<bar>n\<bar> < 2 ^ 53"
  shows "rnd (of_int n) = of_int n"
  using rnd_exact[OF assms, of 0] by simp

lemma rnd_pow2:
  assumes "- 1074 \<le> e"
  shows "rnd (2 powi e) = 2 powi e"
  using rnd_exact[of 1 e] assms by simp

lemma rnd_one: "rnd 1 = 1"
  using rnd_of_int[of 1] by simp

text \<open>The rounding error: half a unit in the last place.\<close>

lemma rnd_error_ulp:
  assumes "x \<noteq> 0"
  shows "\<bar>rnd x - x\<bar> \<le> 2 powi ulp_exp x / 2"
proof -
  define u where "u = (2::real) powi ulp_exp x"
  have u: "0 < u" unfolding u_def by simp
  have "\<bar>real_of_int (rne (x / u)) - x / u\<bar> \<le> 1 / 2"
    using rne_lower[of "x / u"] rne_upper[of "x / u"] by linarith
  then have "\<bar>real_of_int (rne (x / u)) - x / u\<bar> * u \<le> 1 / 2 * u"
    using u by (intro mult_right_mono) auto
  moreover have "\<bar>real_of_int (rne (x / u)) - x / u\<bar> * u = \<bar>real_of_int (rne (x / u)) * u - x\<bar>"
    using u by (simp add: abs_mult_pos[symmetric] field_simps del: abs_mult_pos)
  ultimately have "\<bar>real_of_int (rne (x / u)) * u - x\<bar> \<le> u / 2" by simp
  then show ?thesis using assms unfolding rnd_def u_def by simp
qed

lemma ulp_bound:
  assumes "0 < x"
  shows "2 powi ulp_exp x \<le> x / 2 ^ 52 + 1 / 2 ^ 1074"
proof (cases "- 1022 \<le> flog2 x")
  case True
  have "2 ^ 52 \<le> x / 2 powi ulp_exp x" by (rule scaled_lower[OF assms True])
  then have "2 powi ulp_exp x * 2 ^ 52 \<le> x" by (simp add: field_simps)
  then have "2 powi ulp_exp x \<le> x / 2 ^ 52" by (simp add: field_simps)
  then show ?thesis by (smt (verit) divide_pos_pos zero_less_numeral zero_less_one zero_less_power)
next
  case False
  then have "ulp_exp x = - 1074" using assms by (simp add: ulp_exp_def)
  then have "(2::real) powi ulp_exp x = 1 / 2 ^ 1074" by (simp add: power_int_minus_divide)
  moreover have "0 \<le> x / 2 ^ 52" using assms by simp
  ultimately show ?thesis by linarith
qed

lemma rnd_error:
  assumes "0 \<le> x"
  shows "\<bar>rnd x - x\<bar> \<le> x / 2 ^ 53 + 1 / 2 ^ 1075"
proof (cases "x = 0")
  case True
  then show ?thesis by (simp add: rnd_zero)
next
  case False
  then have x: "0 < x" using assms by simp
  have "\<bar>rnd x - x\<bar> \<le> 2 powi ulp_exp x / 2" by (rule rnd_error_ulp[OF False])
  also have "\<dots> \<le> (x / 2 ^ 52 + 1 / 2 ^ 1074) / 2"
    using ulp_bound[OF x] by simp
  also have "\<dots> = x / 2 ^ 53 + 1 / 2 ^ 1075" by simp
  finally show ?thesis .
qed

subsection \<open>Rounding just below an integer\<close>

lemma rnd_nearest_below:
  assumes "0 < K" "K < 2 ^ 53"
    and "real_of_int K - real_of_int K / 2 ^ 54 < x" "x \<le> real_of_int K"
  shows "rnd x = real_of_int K"
proof -
  have K1: "1 \<le> real_of_int K" using assms(1) by simp
  have Kr: "real_of_int K < 2 ^ 53" using assms(2)
    by (metis of_int_less_iff of_int_numeral of_int_power)
  have xh: "1 / 2 \<le> x" using assms(3) K1 by simp
  then have x: "0 < x" by simp
  have "(2::real) powi (- 1) \<le> x" using xh by (simp add: power_int_minus_divide)
  then have "(2::real) powi (- 1) < 2 powi (flog2 x + 1)"
    using flog2_bounds(2)[OF x] by linarith
  then have e1: "- 1 < flog2 x + 1" by (simp only: pow2_less_iff)
  have "(2::real) powi flog2 x < 2 powi 53"
    using flog2_bounds(1)[OF x] assms(4) Kr by simp
  then have e2: "flog2 x < 53" by (simp only: pow2_less_iff)
  define E where "E = ulp_exp x"
  have E: "E = flog2 x - 52" using e1 x by (simp add: E_def ulp_exp_def)
  define k where "k = nat (- E)"
  have Ek: "E = - int k" using E e2 by (simp add: k_def)
  define u where "u = (2::real) powi E"
  have u: "0 < u" by (simp add: u_def)
  have ui: "1 / u = 2 ^ k" unfolding u_def Ek by (simp add: power_int_minus_divide)
  define Y where "Y = K * 2 ^ k"
  have "real_of_int K / u = real_of_int K * (1 / u)" by simp
  then have Y: "real_of_int Y = real_of_int K / u" unfolding ui by (simp add: Y_def)
  define y where "y = x / u"
  have y53: "y < 2 ^ 53" using scaled_upper[OF x] by (simp add: y_def u_def E_def)
  have "x / u \<le> real_of_int K / u" using assms(4) u by (intro divide_right_mono) auto
  then have yY: "y \<le> real_of_int Y" unfolding y_def Y .
  have "(real_of_int K - real_of_int K / 2 ^ 54) / u < x / u"
    by (rule divide_strict_right_mono[OF assms(3) u])
  then have lo: "real_of_int Y - real_of_int Y / 2 ^ 54 < y"
    unfolding y_def Y by (simp add: diff_divide_distrib)
  have "Y \<le> 2 ^ 53"
  proof (rule ccontr)
    assume "\<not> Y \<le> 2 ^ 53"
    then have "2 ^ 53 + 1 \<le> Y" by simp
    then have "real_of_int (2 ^ 53 + 1) \<le> real_of_int Y" by (simp only: of_int_le_iff)
    then have "2 ^ 53 + 1 \<le> real_of_int Y" by simp
    then have "2 ^ 53 \<le> real_of_int Y - real_of_int Y / 2 ^ 54" by simp
    then show False using lo y53 by linarith
  qed
  then have "real_of_int Y \<le> real_of_int (2 ^ 53)" by (simp only: of_int_le_iff)
  then have "real_of_int Y \<le> 2 ^ 53" by simp
  then have "real_of_int Y / 2 ^ 54 \<le> 1 / 2" by simp
  then have "\<bar>y - real_of_int Y\<bar> < 1 / 2" using lo yY by linarith
  then have "rne y = Y" by (rule rne_nearest)
  then have "rnd x = real_of_int Y * u"
    using x unfolding rnd_def y_def u_def E_def by simp
  also have "\<dots> = real_of_int K" unfolding Y using u by simp
  finally show ?thesis .
qed

section \<open>Evaluating the arithmetic on concrete numbers\<close>

lemmas dbl_eval = rnd_def rne_def ulp_exp_def flog2_def compute_floorlog Let_def

lemma dbl_max_ge: "2 ^ 53 \<le> dbl_max"
  by (simp add: dbl_max_def)

lemma finite_double_Inr: "\<bar>rnd x\<bar> \<le> dbl_max \<Longrightarrow> finite_double x = Inr (rnd x)"
  by (simp add: finite_double_def Let_def)

lemma float_of_int_small:
  assumes "\<bar>n\<bar> < 2 ^ 53"
  shows "float_of_int n = Inr (of_int n)"
proof -
  have "\<bar>real_of_int n\<bar> < 2 ^ 53" using assms
    by (metis of_int_abs of_int_less_iff of_int_numeral of_int_power)
  then have "\<bar>real_of_int n\<bar> \<le> dbl_max" using dbl_max_ge by linarith
  then show ?thesis
    unfolding float_of_int_def using rnd_of_int[OF assms] by (simp add: finite_double_Inr)
qed

lemma int_mul_float_eval:
  assumes "\<bar>n\<bar> < 2 ^ 53" "rnd (of_int n * c) = r" "\<bar>r\<bar> \<le> dbl_max"
  shows "int_mul_float n c = Inr (py_int r)"
  unfolding int_mul_float_def float_of_int_small[OF assms(1)]
  using assms(2,3) by (simp add: and_then_def finite_double_Inr)

lemma int_mul_float_between:
  assumes "\<bar>n\<bar> < 2 ^ 53" "0 \<le> k" "k < 2 ^ 53"
    and "of_int k \<le> rnd (of_int n * c)" "rnd (of_int n * c) < of_int k + 1"
  shows "int_mul_float n c = Inr k"
proof -
  define r where "r = rnd (of_int n * c)"
  have k: "real_of_int k < 2 ^ 53" using assms(3)
    by (metis of_int_less_iff of_int_numeral of_int_power)
  have r0: "0 \<le> r" using assms(2,4) unfolding r_def by linarith
  have "r < 2 ^ 53 + 1" using assms(5) k unfolding r_def by linarith
  moreover have "2 ^ 53 + 1 \<le> dbl_max" by (simp add: dbl_max_def)
  ultimately have "\<bar>r\<bar> \<le> dbl_max" using r0 by linarith
  moreover have "\<lfloor>r\<rfloor> = k" using assms(4,5) unfolding r_def by linarith
  ultimately show ?thesis
    using int_mul_float_eval[OF assms(1), of c r] r0 by (simp add: r_def py_int_def)
qed

lemma gfr29: "get_female_ratio 29 = 1 / 2"
  by (simp add: get_female_ratio_def np_exp_def pivotal_temp_def transition_def dbl_max_def dbl_eval)

lemma source_params_sel:
  "initial_population source_params = 500"
  "carrying_capacity source_params = 2000"
  "maturity_age source_params = 4"
  "hatchling_survival_rate source_params = rnd (4 / 5)"
  "adult_mortality_rate source_params = rnd (1 / 10)"
  "female_mortality_rate source_params = rnd (1 / 20)"
  "male_mortality_rate_warm source_params = rnd (1 / 5)"
  "average_eggs_per_female source_params = 100"
  by (simp_all add: source_params_def)

lemma survival_doubles:
  "rnd (1 - rnd (1 / 5)) = rnd (4 / 5)"
  "rnd (1 - rnd (1 / 10)) = rnd (9 / 10)"
  "rnd (1 - rnd (1 / 20)) = rnd (19 / 20)"
  by (simp_all add: dbl_eval)

lemma initial_state_source:
  "initial_state source_params =
     \<lparr>males = 250, females = 250, male_counts = [250], female_counts = [250],
      total_population = [500]\<rparr>"
  by (simp add: initial_state_def initial_males_def initial_females_def source_params_sel)

lemma surviving_250: "int_mul_float 25000 (rnd (4 / 5)) = Inr 20000"
  by (rule int_mul_float_between) (simp_all add: dbl_eval)

lemma half_20000: "int_mul_float 20000 (1 / 2) = Inr 10000"
  by (rule int_mul_float_between) (simp_all add: dbl_eval)

lemma repro_250: "reproduction source_params 250 250 (1 / 2) = Inr (10000, 10000)"
proof -
  have h: "rnd (1 - 1 / 2) = 1 / 2" by (simp add: dbl_eval)
  show ?thesis
    unfolding reproduction_def Let_def source_params_sel h
    using surviving_250 half_20000 by (simp add: and_then_def)
qed

lemma males_200: "int_mul_float 250 (rnd (4 / 5)) = Inr 200"
  by (rule int_mul_float_between) (simp_all add: dbl_eval)

lemma females_225: "int_mul_float 250 (rnd (9 / 10)) = Inr 225"
  by (rule int_mul_float_between) (simp_all add: dbl_eval)

lemma mort_250: "mortality source_params False (250, 250) = Inr (200, 225)"
  unfolding mortality_def source_params_sel
  by (simp add: survival_doubles males_200 females_225 and_then_def)

lemma scale_20425: "int_truediv 2000 20425 = Inr (rnd (80 / 817))"
  unfolding int_truediv_def
  by (simp add: finite_double_def Let_def dbl_eval dbl_max_def)

lemma females_1001: "int_mul_float 10225 (rnd (80 / 817)) = Inr 1001"
  by (rule int_mul_float_between) (simp_all add: dbl_eval)

lemma males_998: "int_mul_float 10200 (rnd (80 / 817)) = Inr 998"
  by (rule int_mul_float_between) (simp_all add: dbl_eval)

lemma cap_20425: "capacity_constraint source_params (10200, 10225) = Inr (998, 1001)"
  unfolding capacity_constraint_def source_params_sel
  by (simp add: scale_20425 females_1001 males_998 and_then_def)


section \<open>Truncated products with the survival fractions\<close>

lemma real_less_pow2: "k < 2 ^ m \<Longrightarrow> real_of_int k < 2 ^ m"
proof -
  assume "k < 2 ^ m"
  then have "real_of_int k < real_of_int (2 ^ m)" by (simp only: of_int_less_iff)
  then show ?thesis by simp
qed

lemma rnd_le_double:
  assumes "x \<le> real_of_int m * 2 powi e" "\<bar>m\<bar> < 2 ^ 53" "- 1074 \<le> e"
  shows "rnd x \<le> real_of_int m * 2 powi e"
  using rnd_mono[OF assms(1)] rnd_exact[OF assms(2,3)] by simp

lemma rnd_ge_int:
  assumes "real_of_int k \<le> x" "\<bar>k\<bar> < 2 ^ 53"
  shows "real_of_int k \<le> rnd x"
  using rnd_mono[OF assms(1)] rnd_of_int[OF assms(2)] by simp

text \<open>Quotient and remainder of \<open>n * a\<close> by \<open>b\<close>, over the reals.\<close>

lemma ratio_split:
  assumes "0 \<le> n" "0 < a" "a < b"
  defines "k \<equiv> n * a div b" and "j \<equiv> n * a mod b"
  shows "0 \<le> k" "k \<le> n" "0 \<le> j" "j \<le> b - 1"
    "real_of_int n * (real_of_int a / real_of_int b) = real_of_int k + real_of_int j / real_of_int b"
proof -
  have b: "0 < b" using assms by simp
  show "0 \<le> k" using assms by (simp add: pos_imp_zdiv_nonneg_iff)
  have "n * a \<le> n * b" using assms by (simp add: mult_left_mono)
  then have "n * a div b \<le> n * b div b" by (rule zdiv_mono1[OF _ b])
  then show "k \<le> n" using b by (simp add: k_def)
  show "0 \<le> j" using b by (simp add: j_def)
  have "j < b" using b by (simp add: j_def)
  then show "j \<le> b - 1" by simp
  have "n * a = k * b + j" by (simp add: k_def j_def)
  then have "real_of_int (n * a) = real_of_int (k * b + j)" by (rule arg_cong)
  then have e: "real_of_int n * real_of_int a = real_of_int k * real_of_int b + real_of_int j"
    by simp
  have br: "real_of_int b \<noteq> 0" using b by simp
  have "real_of_int n * (real_of_int a / real_of_int b)
      = (real_of_int n * real_of_int a) / real_of_int b" by simp
  also have "\<dots> = (real_of_int k * real_of_int b + real_of_int j) / real_of_int b"
    by (simp only: e)
  also have "\<dots> = real_of_int k + real_of_int j / real_of_int b"
    using br by (simp add: add_divide_distrib)
  finally show "real_of_int n * (real_of_int a / real_of_int b)
      = real_of_int k + real_of_int j / real_of_int b" .
qed

lemma ratio_lower_aux:
  fixes t d k x :: real
  assumes "t / 2 ^ 54 \<le> 1 / 2 ^ 14" "t - t / 2 ^ 54 < x" "t = k + d" "1 / 32 \<le> d"
  shows "k \<le> x"
proof -
  have "t / 2 ^ 54 \<le> 1 / 16384" using assms(1) by simp
  then show ?thesis using assms(2,3,4) by linarith
qed

lemma ratio_upper_aux:
  fixes t d k x m :: real
  assumes "x \<le> t + m" "t = k + d" "d \<le> 1 - 1 / 32" "m \<le> 1 / 2 ^ 13"
  shows "x \<le> k + 1 - 1 / 2 ^ 6"
proof -
  have "m \<le> 1 / 8192" using assms(4) by simp
  then have "x \<le> k + 1 - 1 / 64" using assms(1,2,3) by linarith
  then show ?thesis by simp
qed

lemma int_mul_float_ratio:
  assumes n: "0 \<le> n" "n < 2 ^ 40"
    and ab: "0 < a" "a < b" "b \<le> 32"
    and lo: "real_of_int a / real_of_int b - real_of_int a / real_of_int b / 2 ^ 54 < c"
    and hi: "c \<le> real_of_int a / real_of_int b + 1 / 2 ^ 53"
  shows "int_mul_float n c = Inr (n * a div b)"
proof -
  define k where "k = n * a div b"
  define j where "j = n * a mod b"
  define q where "q = real_of_int a / real_of_int b"
  define x where "x = real_of_int n * c"
  note sp = ratio_split[OF n(1) ab(1,2), folded k_def j_def q_def]
  have k40: "k < 2 ^ 40" using sp(2) n(2) by linarith
  have nr: "0 \<le> real_of_int n" using n by simp
  have nr40: "real_of_int n < 2 ^ 40" by (rule real_less_pow2[OF n(2)])
  have kr: "0 \<le> real_of_int k" using sp(1) by simp
  have br: "0 < real_of_int b" "real_of_int b \<le> 32" using ab by simp_all
  have jr: "0 \<le> real_of_int j" "real_of_int j \<le> real_of_int b - 1" using sp(3,4) by simp_all
  have nq: "real_of_int n * q = real_of_int k + real_of_int j / real_of_int b" by (rule sp(5))
  have q0: "0 < q" using ab unfolding q_def by simp
  have q1: "q < 1" using ab unfolding q_def by simp
  have binv: "1 / 32 \<le> 1 / real_of_int b"
    using br by (intro divide_left_mono) auto
  have jb: "real_of_int j / real_of_int b \<le> 1 - 1 / 32"
  proof -
    have "real_of_int j / real_of_int b \<le> (real_of_int b - 1) / real_of_int b"
      using jr br by (intro divide_right_mono) auto
    also have "\<dots> = 1 - 1 / real_of_int b" using br by (simp add: diff_divide_distrib)
    finally show ?thesis using binv by linarith
  qed
  have n53: "real_of_int n / 2 ^ 53 \<le> 1 / 2 ^ 13"
  proof -
    have "real_of_int n / 2 ^ 53 \<le> 2 ^ 40 / 2 ^ 53"
      using nr40 by (intro divide_right_mono) auto
    then show ?thesis by simp
  qed
  have up: "x \<le> real_of_int k + 1 - 1 / 2 ^ 6"
  proof -
    have "real_of_int n * c \<le> real_of_int n * (q + 1 / 2 ^ 53)"
      using hi nr unfolding q_def by (intro mult_left_mono) auto
    also have "\<dots> = real_of_int n * q + real_of_int n / 2 ^ 53"
      by (simp only: distrib_left) simp
    finally have "x \<le> real_of_int n * q + real_of_int n / 2 ^ 53" unfolding x_def .
    then show ?thesis using nq jb n53 by (rule ratio_upper_aux)
  qed
  have m64: "real_of_int (64 * k + 63) * 2 powi (- 6) = real_of_int k + 1 - 1 / 2 ^ 6"
    by (simp add: power_int_minus_divide add_divide_distrib)
  have "\<bar>64 * k + 63\<bar> < 2 ^ 53" using sp(1) k40 by simp
  then have "rnd x \<le> real_of_int (64 * k + 63) * 2 powi (- 6)"
    using up unfolding m64[symmetric] by (intro rnd_le_double) auto
  then have upper: "rnd x < real_of_int k + 1" unfolding m64 by simp
  have kabs: "\<bar>k\<bar> < 2 ^ 53" using sp(1) k40 by simp
  have lower: "real_of_int k \<le> rnd x"
  proof (cases "n = 0")
    case True
    then show ?thesis by (simp add: x_def k_def rnd_zero)
  next
    case False
    then have npos: "0 < real_of_int n" using n by simp
    have lt: "real_of_int n * (q - q / 2 ^ 54) < real_of_int n * c"
      using lo npos unfolding q_def by (intro mult_strict_left_mono) auto
    have eq: "real_of_int n * (q - q / 2 ^ 54)
        = real_of_int n * q - real_of_int n * q / 2 ^ 54"
      by (simp only: right_diff_distrib) simp
    have xl: "real_of_int n * q - real_of_int n * q / 2 ^ 54 < x"
      using lt unfolding eq x_def .
    show ?thesis
    proof (cases "j = 0")
      case True
      then have nqk: "real_of_int n * q = real_of_int k" using nq by simp
      have "0 < real_of_int n * q" using npos q0 by simp
      then have kpos: "0 < k" unfolding nqk by simp
      have k53: "k < 2 ^ 53" using k40 by simp
      have xl': "real_of_int k - real_of_int k / 2 ^ 54 < x" using xl unfolding nqk .
      show ?thesis
      proof (cases "x \<le> real_of_int k")
        case True
        have "rnd x = real_of_int k"
          by (rule rnd_nearest_below[OF kpos k53 xl' True])
        then show ?thesis by simp
      next
        case False
        then have "real_of_int k \<le> x" by simp
        then show ?thesis using kabs by (rule rnd_ge_int)
      qed
    next
      case False
      then have "1 \<le> j" using sp(3) by simp
      then have "1 \<le> real_of_int j" by simp
      then have "1 / real_of_int b \<le> real_of_int j / real_of_int b"
        using br by (intro divide_right_mono) auto
      then have j32: "1 / 32 \<le> real_of_int j / real_of_int b" using binv by linarith
      have "real_of_int n * q \<le> 2 ^ 40 * 1"
        using nr nr40 q0 q1 by (intro mult_mono) auto
      then have "real_of_int n * q / 2 ^ 54 \<le> 2 ^ 40 / 2 ^ 54"
        by (intro divide_right_mono) auto
      then have "real_of_int n * q / 2 ^ 54 \<le> 1 / 2 ^ 14" by simp
      then have "real_of_int k \<le> x" using xl nq j32 by (rule ratio_lower_aux)
      then show ?thesis using kabs by (rule rnd_ge_int)
    qed
  qed
  have "\<bar>n\<bar> < 2 ^ 53" using n by simp
  moreover have "k < 2 ^ 53" using k40 by simp
  ultimately have "int_mul_float n c = Inr k"
    using sp(1) lower upper unfolding x_def by (intro int_mul_float_between) auto
  then show ?thesis unfolding k_def .
qed

lemma times_four_fifths:
  assumes "0 \<le> n" "n < 2 ^ 40"
  shows "int_mul_float n (rnd (4 / 5)) = Inr (n * 4 div 5)"
  by (rule int_mul_float_ratio[OF assms]) (simp_all add: dbl_eval)

lemma times_nine_tenths:
  assumes "0 \<le> n" "n < 2 ^ 40"
  shows "int_mul_float n (rnd (9 / 10)) = Inr (n * 9 div 10)"
  by (rule int_mul_float_ratio[OF assms]) (simp_all add: dbl_eval)

lemma times_nineteen_twentieths:
  assumes "0 \<le> n" "n < 2 ^ 40"
  shows "int_mul_float n (rnd (19 / 20)) = Inr (n * 19 div 20)"
  by (rule int_mul_float_ratio[OF assms]) (simp_all add: dbl_eval)

lemma times_seventeen_twentieths:
  assumes "0 \<le> n" "n < 2 ^ 40"
  shows "int_mul_float n (rnd (17 / 20)) = Inr (n * 17 div 20)"
  by (rule int_mul_float_ratio[OF assms]) (simp_all add: dbl_eval)

lemma mortality_source:
  assumes "0 \<le> m" "m < 2 ^ 40" "0 \<le> f" "f < 2 ^ 40"
  shows "mortality source_params False (m, f) = Inr (m * 4 div 5, f * 9 div 10)"
    and "mortality source_params True (m, f) = Inr (m * 9 div 10, f * 9 div 10 * 19 div 20)"
proof -
  have f9: "0 \<le> f * 9 div 10" using assms(3) by (simp add: pos_imp_zdiv_nonneg_iff)
  have "f * 9 div 10 \<le> f" using assms(3) by simp
  then have f9': "f * 9 div 10 < 2 ^ 40" using assms(4) by linarith
  show "mortality source_params False (m, f) = Inr (m * 4 div 5, f * 9 div 10)"
    unfolding mortality_def source_params_sel
    by (simp add: survival_doubles times_four_fifths[OF assms(1,2)]
        times_nine_tenths[OF assms(3,4)] and_then_def)
  show "mortality source_params True (m, f) = Inr (m * 9 div 10, f * 9 div 10 * 19 div 20)"
    unfolding mortality_def source_params_sel
    by (simp add: survival_doubles times_nine_tenths[OF assms(1,2)]
        times_nine_tenths[OF assms(3,4)] times_nineteen_twentieths[OF f9 f9'] and_then_def)
qed

lemma int_mul_float_one:
  assumes "\<bar>n\<bar> < 2 ^ 53"
  shows "int_mul_float n 1 = Inr n"
proof -
  have r: "rnd (real_of_int n * 1) = real_of_int n" using rnd_of_int[OF assms] by simp
  have "\<bar>real_of_int n\<bar> < 2 ^ 53" using assms
    by (metis of_int_abs real_less_pow2)
  then have "\<bar>real_of_int n\<bar> \<le> dbl_max" using dbl_max_ge by linarith
  then have "int_mul_float n 1 = Inr (py_int (real_of_int n))"
    by (rule int_mul_float_eval[OF assms r])
  then show ?thesis by (simp add: py_int_def)
qed

lemma int_mul_float_zero:
  assumes "\<bar>n\<bar> < 2 ^ 53"
  shows "int_mul_float n 0 = Inr 0"
proof -
  have r: "rnd (real_of_int n * 0) = 0" by (simp add: rnd_zero)
  have "\<bar>0::real\<bar> \<le> dbl_max" using dbl_max_ge by simp
  then have "int_mul_float n 0 = Inr (py_int 0)"
    by (rule int_mul_float_eval[OF assms r])
  then show ?thesis by (simp add: py_int_def)
qed

lemma int_truediv_pos:
  assumes "0 \<le> a" "a < 2 ^ 53" "0 < b"
  shows "int_truediv a b = Inr (rnd (real_of_int a / real_of_int b))"
proof -
  have b1: "1 \<le> real_of_int b" using assms(3) by simp
  have a0: "0 \<le> real_of_int a" using assms(1) by simp
  have q0: "0 \<le> real_of_int a / real_of_int b" using a0 b1 by simp
  have "real_of_int a / real_of_int b \<le> real_of_int a / 1"
    using a0 b1 by (intro divide_left_mono) auto
  then have "rnd (real_of_int a / real_of_int b) \<le> rnd (real_of_int a)"
    by (intro rnd_mono) simp
  moreover have "rnd (real_of_int a) = real_of_int a"
    using assms(1,2) by (intro rnd_of_int) simp
  moreover have "real_of_int a < 2 ^ 53" by (rule real_less_pow2[OF assms(2)])
  ultimately have "rnd (real_of_int a / real_of_int b) \<le> dbl_max"
    using dbl_max_ge by linarith
  moreover have "0 \<le> rnd (real_of_int a / real_of_int b)" by (rule rnd_nonneg[OF q0])
  ultimately have "\<bar>rnd (real_of_int a / real_of_int b)\<bar> \<le> dbl_max" by simp
  then show ?thesis using assms(3) by (simp add: int_truediv_def finite_double_Inr)
qed

section \<open>The female ratio at extreme temperatures\<close>

lemma exp_ge_pow2: "2 ^ n \<le> exp (real n)"
proof -
  have "(2::real) \<le> exp 1" using exp_ge_add_one_self[of "1::real"] by simp
  then have "(2::real) ^ n \<le> exp 1 ^ n" by (intro power_mono) auto
  also have "\<dots> = exp (real n)" using exp_of_nat_mult[of n "1::real"] by simp
  finally show ?thesis .
qed

lemma rnd_tiny:
  assumes "0 \<le> x" "x < 2 powi (- 1075)"
  shows "rnd x = 0"
proof (cases "x = 0")
  case True
  then show ?thesis by (simp add: rnd_zero)
next
  case False
  then have x: "0 < x" using assms by simp
  have "(2::real) powi flog2 x < 2 powi (- 1075)"
    using flog2_bounds(1)[OF x] assms(2) by linarith
  then have "flog2 x < - 1075" by (simp only: pow2_less_iff)
  then have E: "ulp_exp x = - 1074" using x by (simp add: ulp_exp_def)
  have "x / 2 powi (- 1074) = x * 2 powi 1074"
    by (simp add: power_int_minus_divide)
  also have "\<dots> < 2 powi (- 1075) * 2 powi 1074"
    using assms(2) by (intro mult_strict_right_mono) auto
  also have "\<dots> = 2 powi (- 1)" by (simp only: pow2_split[symmetric]) simp
  also have "\<dots> = 1 / 2" by (simp add: power_int_minus_divide)
  finally have "x / 2 powi (- 1074) < 1 / 2" .
  moreover have "0 \<le> x / 2 powi (- 1074)" using x by simp
  ultimately have "\<bar>x / 2 powi (- 1074) - real_of_int 0\<bar> < 1 / 2" by simp
  then have "rne (x / 2 powi (- 1074)) = 0" by (rule rne_nearest)
  then show ?thesis using False unfolding rnd_def E by simp
qed

lemma np_exp_overflow:
  assumes "1025 \<le> x"
  shows "np_exp x = None"
proof -
  have "(2::real) ^ 1025 \<le> exp (real 1025)" by (rule exp_ge_pow2)
  also have "\<dots> \<le> exp x" using assms by simp
  finally have "2 powi 1025 \<le> exp x" by simp
  then have "rnd (2 powi 1025) \<le> rnd (exp x)" by (rule rnd_mono)
  moreover have "rnd (2 powi 1025) = 2 powi 1025" by (rule rnd_pow2) simp
  ultimately have "2 powi 1025 \<le> rnd (exp x)" by (simp only:)
  moreover have "dbl_max < 2 powi 1025" by (simp add: dbl_max_def)
  ultimately have "dbl_max < rnd (exp x)" by linarith
  then show ?thesis by (simp add: np_exp_def Let_def)
qed

lemma np_exp_underflow:
  assumes "x \<le> - 1076"
  shows "np_exp x = Some 0"
proof -
  have "(2::real) ^ 1076 \<le> exp (real 1076)" by (rule exp_ge_pow2)
  also have "\<dots> \<le> exp (- x)" using assms by simp
  finally have "2 ^ 1076 \<le> exp (- x)" .
  then have "1 / exp (- x) \<le> 1 / 2 ^ 1076"
    by (intro divide_left_mono) auto
  then have "exp x \<le> 1 / 2 ^ 1076" by (simp add: exp_minus inverse_eq_divide)
  also have "\<dots> < 2 powi (- 1075)" by (simp add: power_int_minus_divide)
  finally have "exp x < 2 powi (- 1075)" .
  then have "rnd (exp x) = 0" by (intro rnd_tiny) auto
  then show ?thesis by (simp add: np_exp_def Let_def dbl_max_def)
qed

lemma gfr_cold: "get_female_ratio (- 5000) = 0"
proof -
  have a: "rnd (- 5000 - 29) = - 5029" using rnd_of_int[of "- 5029"] by simp
  have "rnd (real_of_int 5029 * 2 powi (- 1)) = real_of_int 5029 * 2 powi (- 1)"
    by (rule rnd_exact) auto
  then have b: "rnd (5029 / 2) = 5029 / 2" by (simp add: power_int_minus_divide)
  have c: "np_exp (5029 / 2) = None" by (rule np_exp_overflow) simp
  show ?thesis
    unfolding get_female_ratio_def pivotal_temp_def transition_def a
    by (simp add: b c)
qed

lemma gfr_hot: "get_female_ratio 5000 = 1"
proof -
  have a: "rnd (5000 - 29) = 4971" using rnd_of_int[of 4971] by simp
  have "rnd (real_of_int (- 4971) * 2 powi (- 1)) = real_of_int (- 4971) * 2 powi (- 1)"
    by (rule rnd_exact) auto
  then have b: "rnd (- (4971 / 2)) = - (4971 / 2)" by (simp add: power_int_minus_divide)
  have c: "np_exp (- (4971 / 2)) = Some 0" by (rule np_exp_underflow) simp
  show ?thesis
    unfolding get_female_ratio_def pivotal_temp_def transition_def a
    by (simp add: b c rnd_one)
qed

section \<open>Runs evaluated step by step\<close>

text \<open>
  Runs on the constants of the source: a warming run at the pivotal temperature, one at
  \<open>- 5000\<close> degrees, where \<^verbatim>\<open>numpy.exp\<close> overflows and the female ratio is
  \<open>0.0\<close>, and one at \<open>5000\<close> degrees, where it underflows and the ratio is \<open>1.0\<close>.
\<close>

lemma cold_females_1: "int_mul_float 225 (rnd (80 / 817)) = Inr 22"
  by (rule int_mul_float_between) (simp_all add: dbl_eval)

lemma cold_males_1: "int_mul_float 20200 (rnd (80 / 817)) = Inr 1977"
  by (rule int_mul_float_between) (simp_all add: dbl_eval)

lemma cold_capacity_1: "capacity_constraint source_params (20200, 225) = Inr (1977, 22)"
  unfolding capacity_constraint_def source_params_sel
  by (simp add: int_truediv_pos cold_females_1 cold_males_1 and_then_def)

lemma cold_step_1:
  "step source_params False (- 5000)
     \<lparr>males = 250, females = 250, male_counts = [250],
       female_counts = [250],
       total_population = [500]\<rparr> =
   Inr \<lparr>males = 1977, females = 22, male_counts = [250, 1977],
       female_counts = [250, 22],
       total_population = [500, 1999]\<rparr>"
  unfolding step_def gfr_cold Let_def
  by (simp add: mature_females_def py_index_def source_params_sel reproduction_def
      collapse_guard_def mortality_source extinction_rule_def record_counts_def and_then_def
      cold_capacity_1 times_four_fifths times_seventeen_twentieths int_mul_float_one int_mul_float_zero
      rnd_zero rnd_one)

lemma cold_females_2: "int_mul_float 19 (rnd (25 / 42)) = Inr 11"
  by (rule int_mul_float_between) (simp_all add: dbl_eval)

lemma cold_males_2: "int_mul_float 3341 (rnd (25 / 42)) = Inr 1988"
  by (rule int_mul_float_between) (simp_all add: dbl_eval)

lemma cold_capacity_2: "capacity_constraint source_params (3341, 19) = Inr (1988, 11)"
  unfolding capacity_constraint_def source_params_sel
  by (simp add: int_truediv_pos cold_females_2 cold_males_2 and_then_def)

lemma cold_step_2:
  "step source_params False (- 5000)
     \<lparr>males = 1977, females = 22, male_counts = [250, 1977],
       female_counts = [250, 22],
       total_population = [500, 1999]\<rparr> =
   Inr \<lparr>males = 1988, females = 11, male_counts = [250, 1977, 1988],
       female_counts = [250, 22, 11],
       total_population = [500, 1999, 1999]\<rparr>"
  unfolding step_def gfr_cold Let_def
  by (simp add: mature_females_def py_index_def source_params_sel reproduction_def
      collapse_guard_def mortality_source extinction_rule_def record_counts_def and_then_def
      cold_capacity_2 times_four_fifths times_seventeen_twentieths int_mul_float_one int_mul_float_zero
      rnd_zero rnd_one)

lemma cold_females_3: "int_mul_float 9 (rnd (2000 / 2479)) = Inr 7"
  by (rule int_mul_float_between) (simp_all add: dbl_eval)

lemma cold_males_3: "int_mul_float 2470 (rnd (2000 / 2479)) = Inr 1992"
  by (rule int_mul_float_between) (simp_all add: dbl_eval)

lemma cold_capacity_3: "capacity_constraint source_params (2470, 9) = Inr (1992, 7)"
  unfolding capacity_constraint_def source_params_sel
  by (simp add: int_truediv_pos cold_females_3 cold_males_3 and_then_def)

lemma cold_step_3:
  "step source_params False (- 5000)
     \<lparr>males = 1988, females = 11, male_counts = [250, 1977, 1988],
       female_counts = [250, 22, 11],
       total_population = [500, 1999, 1999]\<rparr> =
   Inr \<lparr>males = 1992, females = 7, male_counts = [250, 1977, 1988, 1992],
       female_counts = [250, 22, 11, 7],
       total_population = [500, 1999, 1999, 1999]\<rparr>"
  unfolding step_def gfr_cold Let_def
  by (simp add: mature_females_def py_index_def source_params_sel reproduction_def
      collapse_guard_def mortality_source extinction_rule_def record_counts_def and_then_def
      cold_capacity_3 times_four_fifths times_seventeen_twentieths int_mul_float_one int_mul_float_zero
      rnd_zero rnd_one)

lemma cold_females_4: "int_mul_float 6 (rnd (2000 / 21599)) = Inr 0"
  by (rule int_mul_float_between) (simp_all add: dbl_eval)

lemma cold_males_4: "int_mul_float 21593 (rnd (2000 / 21599)) = Inr 1999"
  by (rule int_mul_float_between) (simp_all add: dbl_eval)

lemma cold_capacity_4: "capacity_constraint source_params (21593, 6) = Inr (1999, 0)"
  unfolding capacity_constraint_def source_params_sel
  by (simp add: int_truediv_pos cold_females_4 cold_males_4 and_then_def)

lemma cold_step_4:
  "step source_params False (- 5000)
     \<lparr>males = 1992, females = 7, male_counts = [250, 1977, 1988, 1992],
       female_counts = [250, 22, 11, 7],
       total_population = [500, 1999, 1999, 1999]\<rparr> =
   Inr \<lparr>males = 1999, females = 0, male_counts = [250, 1977, 1988, 1992, 1999],
       female_counts = [250, 22, 11, 7, 0],
       total_population = [500, 1999, 1999, 1999, 1999]\<rparr>"
  unfolding step_def gfr_cold Let_def
  by (simp add: mature_females_def py_index_def source_params_sel reproduction_def
      collapse_guard_def mortality_source extinction_rule_def record_counts_def and_then_def
      cold_capacity_4 times_four_fifths times_seventeen_twentieths int_mul_float_one int_mul_float_zero
      rnd_zero rnd_one)

lemma hot_females_1: "int_mul_float 20225 (rnd (80 / 817)) = Inr 1980"
  by (rule int_mul_float_between) (simp_all add: dbl_eval)

lemma hot_males_1: "int_mul_float 200 (rnd (80 / 817)) = Inr 19"
  by (rule int_mul_float_between) (simp_all add: dbl_eval)

lemma hot_capacity_1: "capacity_constraint source_params (200, 20225) = Inr (19, 1980)"
  unfolding capacity_constraint_def source_params_sel
  by (simp add: int_truediv_pos hot_females_1 hot_males_1 and_then_def)

lemma hot_step_1:
  "step source_params False (5000)
     \<lparr>males = 250, females = 250, male_counts = [250],
       female_counts = [250],
       total_population = [500]\<rparr> =
   Inr \<lparr>males = 19, females = 1980, male_counts = [250, 19],
       female_counts = [250, 1980],
       total_population = [500, 1999]\<rparr>"
  unfolding step_def gfr_hot Let_def
  by (simp add: mature_females_def py_index_def source_params_sel reproduction_def
      collapse_guard_def mortality_source extinction_rule_def record_counts_def and_then_def
      hot_capacity_1 times_four_fifths times_seventeen_twentieths int_mul_float_one int_mul_float_zero
      rnd_zero rnd_one)

lemma hot_females_2: "int_mul_float 3302 (rnd (2000 / 3317)) = Inr 1990"
  by (rule int_mul_float_between) (simp_all add: dbl_eval)

lemma hot_males_2: "int_mul_float 15 (rnd (2000 / 3317)) = Inr 9"
  by (rule int_mul_float_between) (simp_all add: dbl_eval)

lemma hot_capacity_2: "capacity_constraint source_params (15, 3302) = Inr (9, 1990)"
  unfolding capacity_constraint_def source_params_sel
  by (simp add: int_truediv_pos hot_females_2 hot_males_2 and_then_def)

lemma hot_step_2:
  "step source_params False (5000)
     \<lparr>males = 19, females = 1980, male_counts = [250, 19],
       female_counts = [250, 1980],
       total_population = [500, 1999]\<rparr> =
   Inr \<lparr>males = 9, females = 1990, male_counts = [250, 19, 9],
       female_counts = [250, 1980, 1990],
       total_population = [500, 1999, 1999]\<rparr>"
  unfolding step_def gfr_hot Let_def
  by (simp add: mature_females_def py_index_def source_params_sel reproduction_def
      collapse_guard_def mortality_source extinction_rule_def record_counts_def and_then_def
      hot_capacity_2 times_four_fifths times_seventeen_twentieths int_mul_float_one int_mul_float_zero
      rnd_zero rnd_one)

lemma hot_females_3: "int_mul_float 2511 (rnd (1000 / 1259)) = Inr 1994"
  by (rule int_mul_float_between) (simp_all add: dbl_eval)

lemma hot_males_3: "int_mul_float 7 (rnd (1000 / 1259)) = Inr 5"
  by (rule int_mul_float_between) (simp_all add: dbl_eval)

lemma hot_capacity_3: "capacity_constraint source_params (7, 2511) = Inr (5, 1994)"
  unfolding capacity_constraint_def source_params_sel
  by (simp add: int_truediv_pos hot_females_3 hot_males_3 and_then_def)

lemma hot_step_3:
  "step source_params False (5000)
     \<lparr>males = 9, females = 1990, male_counts = [250, 19, 9],
       female_counts = [250, 1980, 1990],
       total_population = [500, 1999, 1999]\<rparr> =
   Inr \<lparr>males = 5, females = 1994, male_counts = [250, 19, 9, 5],
       female_counts = [250, 1980, 1990, 1994],
       total_population = [500, 1999, 1999, 1999]\<rparr>"
  unfolding step_def gfr_hot Let_def
  by (simp add: mature_females_def py_index_def source_params_sel reproduction_def
      collapse_guard_def mortality_source extinction_rule_def record_counts_def and_then_def
      hot_capacity_3 times_four_fifths times_seventeen_twentieths int_mul_float_one int_mul_float_zero
      rnd_zero rnd_one)

lemma hot_capacity_4: "capacity_constraint source_params (4, 1724) = Inr (4, 1724)"
  unfolding capacity_constraint_def source_params_sel by simp

lemma hot_step_4:
  "step source_params False (5000)
     \<lparr>males = 5, females = 1994, male_counts = [250, 19, 9, 5],
       female_counts = [250, 1980, 1990, 1994],
       total_population = [500, 1999, 1999, 1999]\<rparr> =
   Inr \<lparr>males = 4, females = 1724, male_counts = [250, 19, 9, 5, 4],
       female_counts = [250, 1980, 1990, 1994, 1724],
       total_population = [500, 1999, 1999, 1999, 1728]\<rparr>"
  unfolding step_def gfr_hot Let_def
  by (simp add: mature_females_def py_index_def source_params_sel reproduction_def
      collapse_guard_def mortality_source extinction_rule_def record_counts_def and_then_def
      hot_capacity_4 times_four_fifths times_seventeen_twentieths int_mul_float_one int_mul_float_zero
      rnd_zero rnd_one)

lemma hot_capacity_5: "capacity_constraint source_params (3, 1478) = Inr (3, 1478)"
  unfolding capacity_constraint_def source_params_sel by simp

lemma hot_step_5:
  "step source_params False (5000)
     \<lparr>males = 4, females = 1724, male_counts = [250, 19, 9, 5, 4],
       female_counts = [250, 1980, 1990, 1994, 1724],
       total_population = [500, 1999, 1999, 1999, 1728]\<rparr> =
   Inr \<lparr>males = 3, females = 1478, male_counts = [250, 19, 9, 5, 4, 3],
       female_counts = [250, 1980, 1990, 1994, 1724, 1478],
       total_population = [500, 1999, 1999, 1999, 1728, 1481]\<rparr>"
  unfolding step_def gfr_hot Let_def
  by (simp add: mature_females_def py_index_def source_params_sel reproduction_def
      collapse_guard_def mortality_source extinction_rule_def record_counts_def and_then_def
      hot_capacity_5 times_four_fifths times_seventeen_twentieths int_mul_float_one int_mul_float_zero
      rnd_zero rnd_one)

lemma hot_capacity_6: "capacity_constraint source_params (2, 1250) = Inr (2, 1250)"
  unfolding capacity_constraint_def source_params_sel by simp

lemma hot_step_6:
  "step source_params False (5000)
     \<lparr>males = 3, females = 1478, male_counts = [250, 19, 9, 5, 4, 3],
       female_counts = [250, 1980, 1990, 1994, 1724, 1478],
       total_population = [500, 1999, 1999, 1999, 1728, 1481]\<rparr> =
   Inr \<lparr>males = 2, females = 1250, male_counts = [250, 19, 9, 5, 4, 3, 2],
       female_counts = [250, 1980, 1990, 1994, 1724, 1478, 1250],
       total_population = [500, 1999, 1999, 1999, 1728, 1481, 1252]\<rparr>"
  unfolding step_def gfr_hot Let_def
  by (simp add: mature_females_def py_index_def source_params_sel reproduction_def
      collapse_guard_def mortality_source extinction_rule_def record_counts_def and_then_def
      hot_capacity_6 times_four_fifths times_seventeen_twentieths int_mul_float_one int_mul_float_zero
      rnd_zero rnd_one)

lemma hot_capacity_7: "capacity_constraint source_params (1, 1035) = Inr (1, 1035)"
  unfolding capacity_constraint_def source_params_sel by simp

lemma hot_step_7:
  "step source_params False (5000)
     \<lparr>males = 2, females = 1250, male_counts = [250, 19, 9, 5, 4, 3, 2],
       female_counts = [250, 1980, 1990, 1994, 1724, 1478, 1250],
       total_population = [500, 1999, 1999, 1999, 1728, 1481, 1252]\<rparr> =
   Inr \<lparr>males = 1, females = 1035, male_counts = [250, 19, 9, 5, 4, 3, 2, 1],
       female_counts = [250, 1980, 1990, 1994, 1724, 1478, 1250, 1035],
       total_population = [500, 1999, 1999, 1999, 1728, 1481, 1252, 1036]\<rparr>"
  unfolding step_def gfr_hot Let_def
  by (simp add: mature_females_def py_index_def source_params_sel reproduction_def
      collapse_guard_def mortality_source extinction_rule_def record_counts_def and_then_def
      hot_capacity_7 times_four_fifths times_seventeen_twentieths int_mul_float_one int_mul_float_zero
      rnd_zero rnd_one)

lemma hot_capacity_8: "capacity_constraint source_params (0, 0) = Inr (0, 0)"
  unfolding capacity_constraint_def source_params_sel by simp

lemma hot_step_8:
  "step source_params False (5000)
     \<lparr>males = 1, females = 1035, male_counts = [250, 19, 9, 5, 4, 3, 2, 1],
       female_counts = [250, 1980, 1990, 1994, 1724, 1478, 1250, 1035],
       total_population = [500, 1999, 1999, 1999, 1728, 1481, 1252, 1036]\<rparr> =
   Inr \<lparr>males = 0, females = 0, male_counts = [250, 19, 9, 5, 4, 3, 2, 1, 0],
       female_counts = [250, 1980, 1990, 1994, 1724, 1478, 1250, 1035, 0],
       total_population = [500, 1999, 1999, 1999, 1728, 1481, 1252, 1036, 0]\<rparr>"
  unfolding step_def gfr_hot Let_def
  by (simp add: mature_females_def py_index_def source_params_sel reproduction_def
      collapse_guard_def mortality_source extinction_rule_def record_counts_def and_then_def
      hot_capacity_8 times_four_fifths times_seventeen_twentieths int_mul_float_one int_mul_float_zero
      rnd_zero rnd_one)

lemma hot_run:
  "simulate_population source_params [5000, 5000, 5000, 5000, 5000, 5000, 5000, 5000] False =
   Inr ([5000, 5000, 5000, 5000, 5000, 5000, 5000, 5000],
        [250, 19, 9, 5, 4, 3, 2, 1, 0],
        [250, 1980, 1990, 1994, 1724, 1478, 1250, 1035, 0],
        [500, 1999, 1999, 1999, 1728, 1481, 1252, 1036, 0])"
  unfolding simulate_population_def
  by (simp add: initial_state_source hot_step_1 hot_step_2 hot_step_3 hot_step_4 hot_step_5
      hot_step_6 hot_step_7 hot_step_8 and_then_def)

text \<open>The stages of the eighth step of that run, from 1 male and 1035 females.\<close>

lemma hot_last_stages:
  "reproduction source_params 1724 1 1 = Inr (0, 80)"
  "collapse_guard 1 (0, 80, 1035) = Inr (0, 40, 879)"
  "mortality source_params False (1, 879) = Inr (0, 791)"
  by (simp_all add: reproduction_def collapse_guard_def mortality_source source_params_sel
      Let_def and_then_def times_four_fifths times_seventeen_twentieths int_mul_float_one
      int_mul_float_zero rnd_zero)

lemma warm_step_29:
  "step source_params False 29 (initial_state source_params) =
      Inr \<lparr>males = 998, females = 1001, male_counts = [250, 998],
           female_counts = [250, 1001], total_population = [500, 1999]\<rparr>"
  unfolding step_def gfr29 Let_def initial_state_source
  by (simp add: mature_females_def source_params_sel repro_250 mort_250 cap_20425
      collapse_guard_def extinction_rule_def record_counts_def and_then_def py_index_def)

lemma warm_run_29:
  "simulate_population source_params [29] False =
      Inr ([29], [250, 998], [250, 1001], [500, 1999])"
  unfolding simulate_population_def
  apply (simp add: warm_step_29 and_then_def)
  apply (simp add: initial_state_source)
  done

lemma sim_loop_extinct:
  assumes "males st < 1 \<or> females st < 1"
  shows "sim_loop p cooling temps st = Inr st"
  using assms by (cases temps) auto

lemma empty_run:
  "simulate_population p [] cooling =
     Inr ([], [initial_males p], [initial_females p], [initial_males p + initial_females p])"
  by (simp add: simulate_population_def and_then_def initial_state_def)

lemma cold_loop:
  "sim_loop source_params False (- 5000 # - 5000 # - 5000 # - 5000 # rest)
     (initial_state source_params) =
   Inr \<lparr>males = 1999, females = 0, male_counts = [250, 1977, 1988, 1992, 1999],
        female_counts = [250, 22, 11, 7, 0],
        total_population = [500, 1999, 1999, 1999, 1999]\<rparr>"
  by (simp add: initial_state_source cold_step_1 cold_step_2 cold_step_3 cold_step_4
      and_then_def sim_loop_extinct)

lemma floor_ratio:
  assumes "0 < b"
  shows "\<lfloor>real_of_int n * (real_of_int a / real_of_int b)\<rfloor> = n * a div b"
proof -
  have "real_of_int n * (real_of_int a / real_of_int b) = real_of_int (n * a) / real_of_int b"
    by simp
  then show ?thesis by (simp only: floor_divide_of_int_eq)
qed

lemma half_less: "0 < nm \<Longrightarrow> nm div 2 < (nm::int)"
  by (rule int_div_less_self) auto

lemma shrink_less: "0 < f \<Longrightarrow> \<lfloor>real_of_int f * (85 / 100)\<rfloor> < f"
  by (simp add: floor_less_iff)

section \<open>Range and monotonicity of the female ratio\<close>

lemma rnd_ge_one: "1 \<le> x \<Longrightarrow> 1 \<le> rnd x"
  using rnd_mono[of 1 x] by (simp add: rnd_one)

lemma rnd_le_one: "x \<le> 1 \<Longrightarrow> rnd x \<le> 1"
  using rnd_mono[of x 1] by (simp add: rnd_one)

lemma np_exp_nonneg: "np_exp x = Some e \<Longrightarrow> 0 \<le> e"
  using rnd_nonneg[of "exp x"] by (auto simp: np_exp_def Let_def split: if_splits)

lemma ratio_of_exp_range:
  assumes "0 \<le> e"
  shows "0 \<le> rnd (1 / rnd (1 + e))" "rnd (1 / rnd (1 + e)) \<le> 1"
proof -
  have d: "1 \<le> rnd (1 + e)" using assms by (intro rnd_ge_one) simp
  then have "0 \<le> 1 / rnd (1 + e)" by simp
  then show "0 \<le> rnd (1 / rnd (1 + e))" by (rule rnd_nonneg)
  have "1 / rnd (1 + e) \<le> 1" using d by simp
  then show "rnd (1 / rnd (1 + e)) \<le> 1" by (rule rnd_le_one)
qed

lemma get_female_ratio_range: "0 \<le> get_female_ratio t" "get_female_ratio t \<le> 1"
  using ratio_of_exp_range np_exp_nonneg
  by (auto simp: get_female_ratio_def split: option.splits)

lemma ratio_of_exp_antimono:
  assumes "0 \<le> e2" "e2 \<le> e1"
  shows "rnd (1 / rnd (1 + e1)) \<le> rnd (1 / rnd (1 + e2))"
proof -
  have d2: "1 \<le> rnd (1 + e2)" using assms by (intro rnd_ge_one) simp
  have "rnd (1 + e2) \<le> rnd (1 + e1)" using assms by (intro rnd_mono) simp
  then have "1 / rnd (1 + e1) \<le> 1 / rnd (1 + e2)"
    using d2 by (intro divide_left_mono) auto
  then show ?thesis by (rule rnd_mono)
qed

lemma exponent_antimono:
  assumes "a \<le> b"
  shows "rnd (- transition * rnd (b - pivotal_temp)) \<le> rnd (- transition * rnd (a - pivotal_temp))"
proof -
  have "rnd (a - pivotal_temp) \<le> rnd (b - pivotal_temp)" using assms by (intro rnd_mono) simp
  then have "- transition * rnd (b - pivotal_temp) \<le> - transition * rnd (a - pivotal_temp)"
    by (simp add: transition_def)
  then show ?thesis by (rule rnd_mono)
qed

lemma get_female_ratio_mono:
  assumes "a \<le> b"
  shows "get_female_ratio a \<le> get_female_ratio b"
proof -
  define xa where "xa = rnd (- transition * rnd (a - pivotal_temp))"
  define xb where "xb = rnd (- transition * rnd (b - pivotal_temp))"
  have x: "xb \<le> xa" unfolding xa_def xb_def by (rule exponent_antimono[OF assms])
  then have r: "rnd (exp xb) \<le> rnd (exp xa)" by (intro rnd_mono) simp
  have ga: "get_female_ratio a = (case np_exp xa of None \<Rightarrow> 0 | Some e \<Rightarrow> rnd (1 / rnd (1 + e)))"
    unfolding get_female_ratio_def xa_def ..
  have gb: "get_female_ratio b = (case np_exp xb of None \<Rightarrow> 0 | Some e \<Rightarrow> rnd (1 / rnd (1 + e)))"
    unfolding get_female_ratio_def xb_def ..
  show ?thesis
  proof (cases "np_exp xa")
    case None
    then have "get_female_ratio a = 0" unfolding ga by simp
    then show ?thesis using get_female_ratio_range(1)[of b] by simp
  next
    case (Some ea)
    then have ea: "ea = rnd (exp xa)" "rnd (exp xa) \<le> dbl_max"
      by (auto simp: np_exp_def Let_def split: if_splits)
    then have xbS: "np_exp xb = Some (rnd (exp xb))" using r by (simp add: np_exp_def Let_def)
    have "0 \<le> rnd (exp xb)" by (intro rnd_nonneg) simp
    then have "rnd (1 / rnd (1 + rnd (exp xa))) \<le> rnd (1 / rnd (1 + rnd (exp xb)))"
      using r by (rule ratio_of_exp_antimono)
    then show ?thesis unfolding ga gb xbS Some ea(1) by simp
  qed
qed

lemma get_female_ratio_saturates_high:
  assumes "2181 \<le> t"
  shows "get_female_ratio t = 1"
proof -
  have "real_of_int 2152 \<le> t - pivotal_temp" using assms by (simp add: pivotal_temp_def)
  then have "real_of_int 2152 \<le> rnd (t - pivotal_temp)" by (rule rnd_ge_int) simp
  then have "- transition * rnd (t - pivotal_temp) \<le> real_of_int (- 1076)"
    by (simp add: transition_def)
  then have "rnd (- transition * rnd (t - pivotal_temp)) \<le> rnd (real_of_int (- 1076))"
    by (rule rnd_mono)
  moreover have "rnd (real_of_int (- 1076)) = real_of_int (- 1076)" by (rule rnd_of_int) simp
  ultimately have "rnd (- transition * rnd (t - pivotal_temp)) \<le> - 1076" by simp
  then have "np_exp (rnd (- transition * rnd (t - pivotal_temp))) = Some 0"
    by (rule np_exp_underflow)
  then show ?thesis unfolding get_female_ratio_def by (simp add: rnd_one)
qed

lemma get_female_ratio_saturates_low:
  assumes "t \<le> - 2021"
  shows "get_female_ratio t = 0"
proof -
  have "t - pivotal_temp \<le> real_of_int (- 2050)" using assms by (simp add: pivotal_temp_def)
  then have "rnd (t - pivotal_temp) \<le> rnd (real_of_int (- 2050))" by (rule rnd_mono)
  moreover have "rnd (real_of_int (- 2050)) = real_of_int (- 2050)" by (rule rnd_of_int) simp
  ultimately have "rnd (t - pivotal_temp) \<le> - 2050" by simp
  then have "real_of_int 1025 \<le> - transition * rnd (t - pivotal_temp)"
    by (simp add: transition_def)
  then have "real_of_int 1025 \<le> rnd (- transition * rnd (t - pivotal_temp))"
    by (rule rnd_ge_int) simp
  then have "np_exp (rnd (- transition * rnd (t - pivotal_temp))) = None"
    by (intro np_exp_overflow) simp
  then show ?thesis unfolding get_female_ratio_def by simp
qed

lemma exp_le_pow3: "exp (real n) \<le> 3 ^ n"
proof -
  have "exp (real n) = exp 1 ^ n" using exp_of_nat_mult[of n "1::real"] by simp
  also have "\<dots> \<le> 3 ^ n" using exp_le by (intro power_mono) auto
  finally show ?thesis .
qed

lemma exp_bounds_15:
  fixes x :: real
  assumes "- 15 \<le> x" "x \<le> 15"
  shows "1 / 2 ^ 24 \<le> exp x" "exp x \<le> 2 ^ 24"
proof -
  have e15: "exp (15::real) \<le> 2 ^ 24"
    using exp_le_pow3[of 15] by simp
  have "exp x \<le> exp 15" using assms by simp
  then show "exp x \<le> 2 ^ 24" using e15 by linarith
  have "exp (- x) \<le> exp 15" using assms by simp
  then have "exp (- x) \<le> 2 ^ 24" using e15 by linarith
  then have "1 / 2 ^ 24 \<le> 1 / exp (- x)" by (intro divide_left_mono) auto
  then show "1 / 2 ^ 24 \<le> exp x" by (simp add: exp_minus inverse_eq_divide)
qed

lemma get_female_ratio_interior:
  assumes "\<bar>t - 29\<bar> \<le> 30"
  shows "0 < get_female_ratio t" "get_female_ratio t < 1"
proof -
  define d where "d = rnd (t - pivotal_temp)"
  define x where "x = rnd (- transition * d)"
  define e where "e = rnd (exp x)"
  have "real_of_int (- 30) \<le> t - pivotal_temp" using assms by (simp add: pivotal_temp_def)
  then have d1: "real_of_int (- 30) \<le> d" unfolding d_def by (rule rnd_ge_int) simp
  have "t - pivotal_temp \<le> real_of_int 30 * 2 powi 0" using assms by (simp add: pivotal_temp_def)
  then have "d \<le> real_of_int 30 * 2 powi 0" unfolding d_def by (rule rnd_le_double) simp_all
  then have d2: "d \<le> 30" by simp
  have "real_of_int (- 15) \<le> - transition * d" using d2 by (simp add: transition_def)
  then have x1: "real_of_int (- 15) \<le> x" unfolding x_def by (rule rnd_ge_int) simp
  have "- transition * d \<le> real_of_int 15 * 2 powi 0" using d1 by (simp add: transition_def)
  then have "x \<le> real_of_int 15 * 2 powi 0" unfolding x_def by (rule rnd_le_double) simp_all
  then have x2: "x \<le> 15" by simp
  have b: "1 / 2 ^ 24 \<le> exp x" "exp x \<le> 2 ^ 24" using exp_bounds_15[of x] x1 x2 by simp_all
  have "real_of_int 1 * 2 powi (- 24) \<le> exp x" using b(1) by (simp add: power_int_minus_divide)
  then have "rnd (real_of_int 1 * 2 powi (- 24)) \<le> e" unfolding e_def by (rule rnd_mono)
  moreover have "rnd (real_of_int 1 * 2 powi (- 24)) = real_of_int 1 * 2 powi (- 24)"
    by (rule rnd_exact) simp_all
  ultimately have e1: "1 / 2 ^ 24 \<le> e" by (simp add: power_int_minus_divide)
  have "exp x \<le> real_of_int (2 ^ 24) * 2 powi 0" using b(2) by simp
  then have "e \<le> real_of_int (2 ^ 24) * 2 powi 0" unfolding e_def by (rule rnd_le_double) simp_all
  then have e2: "e \<le> 2 ^ 24" by simp
  have "(2::real) ^ 24 \<le> 2 ^ 53" by simp
  then have "e \<le> dbl_max" using e2 dbl_max_ge by linarith
  then have ne: "np_exp x = Some e" by (simp add: np_exp_def Let_def e_def)
  have g: "get_female_ratio t = rnd (1 / rnd (1 + e))"
    unfolding get_female_ratio_def d_def[symmetric] x_def[symmetric] ne by simp
  define s where "s = rnd (1 + e)"
  have "real_of_int (2 ^ 24 + 1) * 2 powi (- 24) \<le> 1 + e"
    using e1 by (simp add: power_int_minus_divide add_divide_distrib)
  then have "rnd (real_of_int (2 ^ 24 + 1) * 2 powi (- 24)) \<le> s" unfolding s_def by (rule rnd_mono)
  moreover have "rnd (real_of_int (2 ^ 24 + 1) * 2 powi (- 24))
      = real_of_int (2 ^ 24 + 1) * 2 powi (- 24)"
    by (rule rnd_exact) simp_all
  ultimately have s1: "1 + 1 / 2 ^ 24 \<le> s"
    by (simp add: power_int_minus_divide add_divide_distrib)
  have "1 + e \<le> real_of_int (2 ^ 24 + 1) * 2 powi 0" using e2 by simp
  then have "s \<le> real_of_int (2 ^ 24 + 1) * 2 powi 0" unfolding s_def by (rule rnd_le_double) simp_all
  then have s2: "s \<le> 2 ^ 24 + 1" by simp
  have spos: "0 < s" using s1 by (smt (verit) divide_pos_pos zero_less_numeral zero_less_one zero_less_power)
  have "1 / (2 ^ 24 + 1) \<le> 1 / s" using s2 spos by (intro divide_left_mono) auto
  moreover have "(1::real) / 2 ^ 25 \<le> 1 / (2 ^ 24 + 1)" by simp
  ultimately have "real_of_int 1 * 2 powi (- 25) \<le> 1 / s"
    by (simp add: power_int_minus_divide)
  then have "rnd (real_of_int 1 * 2 powi (- 25)) \<le> rnd (1 / s)" by (rule rnd_mono)
  moreover have "rnd (real_of_int 1 * 2 powi (- 25)) = real_of_int 1 * 2 powi (- 25)"
    by (rule rnd_exact) simp_all
  ultimately have "1 / 2 ^ 25 \<le> rnd (1 / s)" by (simp add: power_int_minus_divide)
  then show "0 < get_female_ratio t" unfolding g s_def[symmetric]
    by (smt (verit) divide_pos_pos zero_less_numeral zero_less_one zero_less_power)
  have "1 / s \<le> 1 / (1 + 1 / 2 ^ 24)" using s1 by (intro divide_left_mono) auto
  moreover have "(1::real) / (1 + 1 / 2 ^ 24) \<le> 1 - 1 / 2 ^ 25" by simp
  ultimately have "1 / s \<le> real_of_int (2 ^ 25 - 1) * 2 powi (- 25)"
    by (simp add: power_int_minus_divide diff_divide_distrib)
  then have "rnd (1 / s) \<le> real_of_int (2 ^ 25 - 1) * 2 powi (- 25)"
    by (rule rnd_le_double) simp_all
  then have "rnd (1 / s) \<le> 1 - 1 / 2 ^ 25"
    by (simp add: power_int_minus_divide diff_divide_distrib)
  then show "get_female_ratio t < 1" unfolding g s_def[symmetric] by simp
qed

section \<open>Runs on malformed constants\<close>

lemma int_mul_float_minus:
  assumes "int_mul_float n c = Inr k"
  shows "int_mul_float n (- c) = Inr (- k)"
proof -
  have p: "py_int (- r) = - py_int r" for r
    by (auto simp: py_int_def ceiling_def)
  show ?thesis
    using assms
    by (auto simp: int_mul_float_def and_then_def finite_double_def Let_def rnd_minus p
        split: sum.splits if_splits)
qed

lemma int_mul_float_neg:
  assumes "int_mul_float n c = Inr k"
  shows "int_mul_float (- n) c = Inr (- k)"
proof -
  have p: "py_int (- r) = - py_int r" for r
    by (auto simp: py_int_def ceiling_def)
  show ?thesis
    using assms
    by (auto simp: int_mul_float_def and_then_def finite_double_def float_of_int_def Let_def
        rnd_minus p split: sum.splits if_splits)
qed

lemma zero_capacity_run:
  "simulate_population (source_params\<lparr>carrying_capacity := 0\<rparr>) [29] False =
     Inr ([29], [250, 0], [250, 0], [500, 0])"
proof -
  have c: "capacity_constraint (source_params\<lparr>carrying_capacity := 0\<rparr>) (10200, 10225)
      = Inr (0, 0)"
    unfolding capacity_constraint_def
    by (simp add: int_truediv_pos int_mul_float_zero rnd_zero and_then_def)
  have r: "reproduction (source_params\<lparr>carrying_capacity := 0\<rparr>) 250 250 (1 / 2)
      = Inr (10000, 10000)"
    using repro_250 by (simp add: reproduction_def)
  have m: "mortality (source_params\<lparr>carrying_capacity := 0\<rparr>) False (250, 250)
      = Inr (200, 225)"
    using mort_250 by (simp add: mortality_def)
  have s: "step (source_params\<lparr>carrying_capacity := 0\<rparr>) False 29
      \<lparr>males = 250, females = 250, male_counts = [250], female_counts = [250],
       total_population = [500]\<rparr> =
      Inr \<lparr>males = 0, females = 0, male_counts = [250, 0], female_counts = [250, 0],
       total_population = [500, 0]\<rparr>"
    unfolding step_def gfr29 Let_def
    by (simp add: mature_females_def source_params_sel r m c
        collapse_guard_def extinction_rule_def record_counts_def and_then_def)
  have i: "initial_state (source_params\<lparr>carrying_capacity := 0\<rparr>) =
      \<lparr>males = 250, females = 250, male_counts = [250], female_counts = [250],
       total_population = [500]\<rparr>"
    by (simp add: initial_state_def initial_males_def initial_females_def source_params_sel)
  show ?thesis unfolding simulate_population_def i by (simp add: s and_then_def)
qed

lemma negative_rate_run:
  "simulate_population (source_params\<lparr>hatchling_survival_rate := rnd (- (4 / 5))\<rparr>) [29] False =
     Inr ([29], [250, - 9800], [250, - 9775], [500, - 19575])"
proof -
  let ?p = "source_params\<lparr>hatchling_survival_rate := rnd (- (4 / 5))\<rparr>"
  have h: "hatchling_survival_rate ?p = - rnd (4 / 5)"
    using rnd_minus[of "4 / 5"] by simp
  have so: "int_mul_float 25000 (- rnd (4 / 5)) = Inr (- 20000)"
    using int_mul_float_minus[OF surviving_250] by simp
  have nn: "int_mul_float (- 20000) (1 / 2) = Inr (- 10000)"
    using int_mul_float_neg[OF half_20000] by simp
  have hf: "rnd (1 - 1 / 2) = 1 / 2" by (simp add: dbl_eval)
  have r: "reproduction ?p 250 250 (1 / 2) = Inr (- 10000, - 10000)"
    unfolding reproduction_def Let_def h hf
    by (simp add: source_params_sel so nn and_then_def)
  have m: "mortality ?p False (250, 250) = Inr (200, 225)"
    using mort_250 by (simp add: mortality_def)
  have c: "capacity_constraint ?p (- 9800, - 9775) = Inr (- 9800, - 9775)"
    unfolding capacity_constraint_def by (simp add: source_params_sel)
  have s: "step ?p False 29
      \<lparr>males = 250, females = 250, male_counts = [250], female_counts = [250],
       total_population = [500]\<rparr> =
      Inr \<lparr>males = - 9800, females = - 9775, male_counts = [250, - 9800],
       female_counts = [250, - 9775], total_population = [500, - 19575]\<rparr>"
    unfolding step_def gfr29 Let_def
    by (simp add: mature_females_def source_params_sel r m c
        collapse_guard_def extinction_rule_def record_counts_def and_then_def)
  have i: "initial_state ?p =
      \<lparr>males = 250, females = 250, male_counts = [250], female_counts = [250],
       total_population = [500]\<rparr>"
    by (simp add: initial_state_def initial_males_def initial_females_def source_params_sel)
  show ?thesis unfolding simulate_population_def i by (simp add: s and_then_def)
qed

lemma division_by_zero_run:
  "simulate_population
     (source_params\<lparr>carrying_capacity := - 1, hatchling_survival_rate := 0,
        male_mortality_rate_warm := 1\<rparr>) [29] False = Inl ZeroDivisionError"
proof -
  let ?p = "source_params\<lparr>carrying_capacity := - 1, hatchling_survival_rate := 0,
        male_mortality_rate_warm := 1\<rparr>"
  have hf: "rnd (1 - 1 / 2) = 1 / 2" by (simp add: dbl_eval)
  have z: "int_mul_float 0 (1 / 2) = Inr 0"
    using int_mul_float_eval[of 0 "1 / 2" 0] dbl_max_ge by (simp add: rnd_zero py_int_def)
  have r: "reproduction ?p 250 250 (1 / 2) = Inr (0, 0)"
    unfolding reproduction_def Let_def hf
    by (simp add: source_params_sel int_mul_float_zero z and_then_def)
  have m: "mortality ?p False (250, 250) = Inr (0, 225)"
    unfolding mortality_def
    by (simp add: source_params_sel survival_doubles rnd_zero int_mul_float_zero females_225
        and_then_def)
  have c: "capacity_constraint ?p (0, 0) = Inl ZeroDivisionError"
    unfolding capacity_constraint_def by (simp add: int_truediv_def and_then_def)
  have s: "step ?p False 29
      \<lparr>males = 250, females = 250, male_counts = [250], female_counts = [250],
       total_population = [500]\<rparr> = Inl ZeroDivisionError"
    unfolding step_def gfr29 Let_def
    by (simp add: mature_females_def source_params_sel r m c
        collapse_guard_def extinction_rule_def and_then_def)
  have i: "initial_state ?p =
      \<lparr>males = 250, females = 250, male_counts = [250], female_counts = [250],
       total_population = [500]\<rparr>"
    by (simp add: initial_state_def initial_males_def initial_females_def source_params_sel)
  show ?thesis unfolding simulate_population_def i by (simp add: s and_then_def)
qed

section \<open>The stages of one step\<close>

text \<open>
  A step that returns a state has passed every stage; the counts each stage returns are
  non-negative when its inputs are.
\<close>

lemma and_then_Inr:
  "and_then m f = Inr y \<longleftrightarrow> (\<exists>v. m = Inr v \<and> f v = Inr y)"
  by (cases m) (simp_all add: and_then_def)

lemma step_Inr_ex:
  assumes "step p c t st = Inr st'"
  shows "\<exists>mature nm nf nm' nf' fem ms' fem' v.
    mature_females p (female_counts st) (females st) = Inr mature
    \<and> reproduction p mature (males st) (get_female_ratio t) = Inr (nm, nf)
    \<and> collapse_guard (males st) (nm, nf, females st) = Inr (nm', nf', fem)
    \<and> mortality p c (males st, fem) = Inr (ms', fem')
    \<and> capacity_constraint p (extinction_rule (ms' + nm', fem' + nf')) = Inr v
    \<and> st' = record_counts st v"
  using assms by (auto simp: step_def Let_def and_then_Inr split: prod.splits)

lemma step_Inr_stages:
  assumes "step p c t st = Inr st'"
  obtains mature nm nf nm' nf' fem ms' fem' v where
    "mature_females p (female_counts st) (females st) = Inr mature"
    "reproduction p mature (males st) (get_female_ratio t) = Inr (nm, nf)"
    "collapse_guard (males st) (nm, nf, females st) = Inr (nm', nf', fem)"
    "mortality p c (males st, fem) = Inr (ms', fem')"
    "capacity_constraint p (extinction_rule (ms' + nm', fem' + nf')) = Inr v"
    "st' = record_counts st v"
  using step_Inr_ex[OF assms] by blast

lemma int_mul_float_Inr:
  assumes "int_mul_float n c = Inr k"
  shows "\<bar>rnd (real_of_int n)\<bar> \<le> dbl_max"
    and "\<bar>rnd (rnd (real_of_int n) * c)\<bar> \<le> dbl_max"
    and "k = py_int (rnd (rnd (real_of_int n) * c))"
  using assms
  by (auto simp: int_mul_float_def float_of_int_def finite_double_def Let_def and_then_def
      split: if_splits)

lemma int_mul_float_nonneg:
  assumes "int_mul_float n c = Inr k" "0 \<le> n" "0 \<le> c"
  shows "0 \<le> k"
proof -
  have "0 \<le> rnd (real_of_int n)" using assms(2) by (intro rnd_nonneg) simp
  then have "0 \<le> rnd (rnd (real_of_int n) * c)" using assms(3) by (intro rnd_nonneg) simp
  then show ?thesis using int_mul_float_Inr(3)[OF assms(1)] by (simp add: py_int_def)
qed

lemma mature_females_nonneg:
  assumes "mature_females p fc fem = Inr mf" "\<forall>x\<in>set fc. 0 \<le> x" "0 \<le> fem"
  shows "0 \<le> mf"
  using assms
  by (auto simp: mature_females_def py_index_def split: if_splits)

lemma reproduction_nonneg:
  assumes "reproduction p mf ms fr = Inr (nm, nf)"
    and "0 \<le> mf" "0 \<le> ms" "0 \<le> fr" "fr \<le> 1"
    and "0 \<le> average_eggs_per_female p" "0 \<le> hatchling_survival_rate p"
  shows "0 \<le> nm" "0 \<le> nf"
proof -
  obtain so where so: "int_mul_float (min mf ms * average_eggs_per_female p)
        (hatchling_survival_rate p) = Inr so"
    and nm: "int_mul_float so (rnd (1 - fr)) = Inr nm"
    and nf: "int_mul_float so fr = Inr nf"
    using assms(1) by (auto simp: reproduction_def Let_def and_then_Inr)
  have "0 \<le> min mf ms * average_eggs_per_female p" using assms(2,3,6) by simp
  then have so0: "0 \<le> so" using int_mul_float_nonneg[OF so] assms(7) by simp
  have "0 \<le> rnd (1 - fr)" using assms(5) by (intro rnd_nonneg) simp
  then show "0 \<le> nm" using int_mul_float_nonneg[OF nm so0] by simp
  show "0 \<le> nf" using int_mul_float_nonneg[OF nf so0 assms(4)] .
qed

lemma collapse_guard_nonneg:
  assumes "collapse_guard ms (nm, nf, fem) = Inr (nm', nf', fem')"
    and "0 \<le> nm" "0 \<le> nf" "0 \<le> fem"
  shows "0 \<le> nm'" "0 \<le> nf'" "0 \<le> fem'"
proof -
  have c: "0 \<le> rnd (85 / 100)" by (intro rnd_nonneg) simp
  show "0 \<le> nm'" "0 \<le> nf'" "0 \<le> fem'"
    using assms int_mul_float_nonneg[OF _ assms(4) c]
    by (auto simp: collapse_guard_def and_then_Inr split: if_splits)
qed

lemma mortality_nonneg:
  assumes "mortality p c (ms, fem) = Inr (ms', fem')" "0 \<le> ms" "0 \<le> fem"
    and "adult_mortality_rate p \<le> 1" "female_mortality_rate p \<le> 1"
    and "male_mortality_rate_warm p \<le> 1"
  shows "0 \<le> ms'" "0 \<le> fem'"
proof -
  have a: "0 \<le> rnd (1 - adult_mortality_rate p)" using assms(4) by (intro rnd_nonneg) simp
  have f: "0 \<le> rnd (1 - female_mortality_rate p)" using assms(5) by (intro rnd_nonneg) simp
  have w: "0 \<le> rnd (1 - male_mortality_rate_warm p)" using assms(6) by (intro rnd_nonneg) simp
  have m: "0 \<le> rnd (1 - (if \<not> c then male_mortality_rate_warm p else adult_mortality_rate p))"
    using a w by simp
  obtain f1 where ms': "int_mul_float ms
        (rnd (1 - (if \<not> c then male_mortality_rate_warm p else adult_mortality_rate p))) = Inr ms'"
    and f1: "int_mul_float fem (rnd (1 - adult_mortality_rate p)) = Inr f1"
    and f2: "if c then int_mul_float f1 (rnd (1 - female_mortality_rate p)) = Inr fem'
             else fem' = f1"
    using assms(1) by (auto simp: mortality_def and_then_Inr split: if_splits)
  show "0 \<le> ms'" by (rule int_mul_float_nonneg[OF ms' assms(2) m])
  have f10: "0 \<le> f1" by (rule int_mul_float_nonneg[OF f1 assms(3) a])
  show "0 \<le> fem'"
  proof (cases c)
    case True
    then have "int_mul_float f1 (rnd (1 - female_mortality_rate p)) = Inr fem'" using f2 by simp
    then show ?thesis using int_mul_float_nonneg[OF _ f10 f] by simp
  next
    case False
    then show ?thesis using f2 f10 by simp
  qed
qed

lemma extinction_rule_nonneg:
  assumes "extinction_rule (m, f) = (m', f')" "0 \<le> m" "0 \<le> f"
  shows "0 \<le> m'" "0 \<le> f'"
  using assms by (auto simp: extinction_rule_def split: if_splits)

section \<open>The capacity constraint never exceeds the capacity\<close>

text \<open>
  The scale factor \<^verbatim>\<open>carrying_capacity / total\<close> and the two products are each rounded to a
  double; the accumulated relative error is far below what the truncation to an integer
  absorbs, for capacities up to \<open>2 ^ 50\<close>.
\<close>

lemma cube_bound:
  fixes u :: real
  assumes "0 \<le> u" "u \<le> 1 / 4"
  shows "(1 + u) * (1 + u) * (1 + u) \<le> 1 + 4 * u"
proof -
  have e: "(1 + u) * (1 + u) * (1 + u) = 1 + 3 * u + u * (3 * u + u * u)"
    by (simp add: algebra_simps)
  have "u * u \<le> u * (1 / 4)" using assms by (intro mult_left_mono) auto
  then have "3 * u + u * u \<le> 1" using assms by linarith
  then have "u * (3 * u + u * u) \<le> u * 1" using assms(1) by (intro mult_left_mono) auto
  then show ?thesis unfolding e by linarith
qed

lemma chain_aux:
  fixes R P X Y W Z \<eta> :: real
  assumes "R \<le> P + \<eta>" "P \<le> X + Y" "Y \<le> (2 * Z + 3 * \<eta>) * 2" "X \<le> W"
  shows "R \<le> W + 4 * Z + 7 * \<eta>"
proof -
  have "(2 * Z + 3 * \<eta>) * 2 = 4 * Z + 6 * \<eta>" by simp
  then have "Y \<le> 4 * Z + 6 * \<eta>" using assms(3) by simp
  then show ?thesis using assms(1,2,4) by linarith
qed

lemma scaled_product_bound:
  fixes f r s A R u \<eta> :: real
  assumes f0: "0 \<le> f" and r0: "0 \<le> r" and r1: "r \<le> 1"
    and u0: "0 \<le> u" and u4: "u \<le> 1 / 4" and e0: "0 \<le> \<eta>" and e1: "\<eta> \<le> 1"
    and s0: "0 \<le> s" and s_le: "s \<le> r * (1 + u) + \<eta>"
    and A0: "0 \<le> A" and A_le: "A \<le> f * (1 + u) + \<eta>"
    and R_le: "R \<le> A * s * (1 + u) + \<eta>"
  shows "R \<le> f * r * (1 + 4 * u) + 4 * (f * \<eta>) + 7 * \<eta>"
proof -
  define a where "a = 1 + u"
  have a1: "1 \<le> a" "a \<le> 2" "0 \<le> a" using u0 u4 by (simp_all add: a_def)
  have fe: "0 \<le> f * \<eta>" using f0 e0 by simp
  have fr: "0 \<le> f * r" using f0 r0 by simp
  have fa: "0 \<le> f * a + \<eta>" using f0 a1 e0 by simp
  have As: "A * s \<le> (f * a + \<eta>) * (r * a + \<eta>)"
    using A_le s_le A0 s0 fa unfolding a_def by (intro mult_mono) auto
  have ex1: "(f * a + \<eta>) * (r * a + \<eta>) = f * r * (a * a) + (f * \<eta>) * a + (\<eta> * r) * a + \<eta> * \<eta>"
    by (simp add: algebra_simps)
  have t1: "(f * \<eta>) * a \<le> (f * \<eta>) * 2" using fe a1 by (intro mult_left_mono) auto
  have "\<eta> * r \<le> \<eta> * 1" using e0 r1 by (intro mult_left_mono) auto
  then have "(\<eta> * r) * a \<le> \<eta> * 2" using a1 e0 r0 by (intro mult_mono) auto
  then have t2: "(\<eta> * r) * a \<le> 2 * \<eta>" by simp
  have t3: "\<eta> * \<eta> \<le> \<eta> * 1" using e0 e1 by (intro mult_left_mono) auto
  have B: "A * s \<le> f * r * (a * a) + 2 * (f * \<eta>) + 3 * \<eta>"
    using As t1 t2 t3 unfolding ex1 by linarith
  have C: "A * s * a \<le> (f * r * (a * a) + 2 * (f * \<eta>) + 3 * \<eta>) * a"
    using B a1 by (intro mult_right_mono) auto
  have ex2: "(f * r * (a * a) + 2 * (f * \<eta>) + 3 * \<eta>) * a
      = f * r * (a * a * a) + (2 * (f * \<eta>) + 3 * \<eta>) * a"
    by (simp add: algebra_simps)
  have "0 \<le> 2 * (f * \<eta>) + 3 * \<eta>" using fe e0 by simp
  then have t4: "(2 * (f * \<eta>) + 3 * \<eta>) * a \<le> (2 * (f * \<eta>) + 3 * \<eta>) * 2"
    using a1 by (intro mult_left_mono) auto
  have "a * a * a \<le> 1 + 4 * u" unfolding a_def by (rule cube_bound[OF u0 u4])
  then have t5: "f * r * (a * a * a) \<le> f * r * (1 + 4 * u)"
    using fr by (intro mult_left_mono) auto
  have h1: "R \<le> A * s * a + \<eta>" using R_le unfolding a_def .
  have h2: "A * s * a \<le> f * r * (a * a * a) + (2 * (f * \<eta>) + 3 * \<eta>) * a"
    using C unfolding ex2 .
  show ?thesis by (rule chain_aux[OF h1 h2 t4 t5])
qed

lemma rnd_upper_rel:
  assumes "0 \<le> x"
  shows "rnd x \<le> x * (1 + 1 / 2 ^ 53) + 1 / 2 ^ 1075"
proof -
  have "rnd x - x \<le> x / 2 ^ 53 + 1 / 2 ^ 1075" using rnd_error[OF assms] by linarith
  moreover have "x * (1 + 1 / 2 ^ 53) = x + x / 2 ^ 53" by (simp add: algebra_simps)
  ultimately show ?thesis by linarith
qed

lemma finite_rnd_int_bound:
  assumes "\<bar>rnd (real_of_int n)\<bar> \<le> dbl_max" "0 \<le> n"
  shows "real_of_int n < 2 ^ 1024"
proof (rule ccontr)
  assume "\<not> real_of_int n < 2 ^ 1024"
  then have "2 powi 1024 \<le> real_of_int n" by simp
  then have "rnd (2 powi 1024) \<le> rnd (real_of_int n)" by (rule rnd_mono)
  moreover have "rnd (2 powi 1024) = 2 powi 1024" by (rule rnd_pow2) simp
  moreover have "dbl_max < 2 powi 1024" by (simp add: dbl_max_def)
  ultimately show False using assms(1) by linarith
qed

lemma scaled_count_bound:
  assumes imf: "int_mul_float f s = Inr f'" and f0: "0 \<le> f"
    and s0: "0 \<le> s" and r0: "0 \<le> r" and r1: "r \<le> 1"
    and s_le: "s \<le> r * (1 + 1 / 2 ^ 53) + 1 / 2 ^ 1075"
  shows "0 \<le> f'"
    and "real_of_int f' \<le> real_of_int f * r * (1 + 4 * (1 / 2 ^ 53))
          + 4 * (real_of_int f * (1 / 2 ^ 1075)) + 7 * (1 / 2 ^ 1075)"
    and "real_of_int f * (1 / 2 ^ 1075) \<le> 1 / 2 ^ 51"
proof -
  define A where "A = rnd (real_of_int f)"
  define R where "R = rnd (A * s)"
  note i = int_mul_float_Inr[OF imf, folded A_def R_def]
  have fr: "0 \<le> real_of_int f" using f0 by simp
  have A0: "0 \<le> A" unfolding A_def by (rule rnd_nonneg[OF fr])
  have A_le: "A \<le> real_of_int f * (1 + 1 / 2 ^ 53) + 1 / 2 ^ 1075"
    unfolding A_def by (rule rnd_upper_rel[OF fr])
  have As: "0 \<le> A * s" using A0 s0 by simp
  have R0: "0 \<le> R" unfolding R_def by (rule rnd_nonneg[OF As])
  have R_le: "R \<le> A * s * (1 + 1 / 2 ^ 53) + 1 / 2 ^ 1075"
    unfolding R_def by (rule rnd_upper_rel[OF As])
  have f': "f' = \<lfloor>R\<rfloor>" using i(3) R0 unfolding R_def by (simp add: py_int_def)
  show "0 \<le> f'" using R0 unfolding f' by simp
  have "R \<le> real_of_int f * r * (1 + 4 * (1 / 2 ^ 53))
          + 4 * (real_of_int f * (1 / 2 ^ 1075)) + 7 * (1 / 2 ^ 1075)"
    by (rule scaled_product_bound[OF fr r0 r1 _ _ _ _ s0 s_le A0 A_le R_le]) simp_all
  moreover have "real_of_int f' \<le> R" unfolding f' by simp
  ultimately show "real_of_int f' \<le> real_of_int f * r * (1 + 4 * (1 / 2 ^ 53))
          + 4 * (real_of_int f * (1 / 2 ^ 1075)) + 7 * (1 / 2 ^ 1075)" by linarith
  have "real_of_int f < 2 ^ 1024"
    using finite_rnd_int_bound[OF _ f0] i(1) unfolding A_def by simp
  then have "real_of_int f * (1 / 2 ^ 1075) \<le> 2 ^ 1024 * (1 / 2 ^ 1075)"
    by (intro mult_right_mono) auto
  also have "\<dots> = 1 / 2 ^ 51" by simp
  finally show "real_of_int f * (1 / 2 ^ 1075) \<le> 1 / 2 ^ 51" .
qed

lemma capacity_sum_aux:
  fixes m' f' Fm Ff C em ef \<eta> :: real
  assumes "m' \<le> Fm + 4 * em + 7 * \<eta>" "f' \<le> Ff + 4 * ef + 7 * \<eta>"
    and "Fm + Ff \<le> C + 1 / 2" "em \<le> 1 / 2 ^ 51" "ef \<le> 1 / 2 ^ 51" "\<eta> \<le> 1 / 2 ^ 51"
  shows "m' + f' < C + 1"
proof -
  have "(1::real) / 2 ^ 51 \<le> 1 / 64" by simp
  then show ?thesis using assms by linarith
qed

lemma capacity_constraint_bound:
  assumes cc: "capacity_constraint p (m, f) = Inr (m', f')"
    and m0: "0 \<le> m" and f0: "0 \<le> f"
    and C0: "0 \<le> carrying_capacity p" and C50: "carrying_capacity p \<le> 2 ^ 50"
  shows "0 \<le> m'" "0 \<le> f'"
    and "carrying_capacity p < m + f \<Longrightarrow> m' + f' \<le> carrying_capacity p"
    and "m + f \<le> carrying_capacity p \<Longrightarrow> m' = m \<and> f' = f"
proof -
  define C where "C = carrying_capacity p"
  show u: "m + f \<le> carrying_capacity p \<Longrightarrow> m' = m \<and> f' = f"
    using cc by (simp add: capacity_constraint_def Let_def)
  have main: "0 \<le> m' \<and> 0 \<le> f' \<and> m' + f' \<le> C" if lt: "C < m + f"
  proof -
    define T where "T = m + f"
    obtain s where sc: "int_truediv C T = Inr s"
      and fm: "int_mul_float f s = Inr f'" and mm: "int_mul_float m s = Inr m'"
      using cc lt unfolding C_def T_def
      by (auto simp: capacity_constraint_def Let_def and_then_Inr)
    have Tpos: "0 < real_of_int T" using lt C0 unfolding T_def C_def by simp
    define r where "r = real_of_int C / real_of_int T"
    have r0: "0 \<le> r" using C0 Tpos unfolding r_def C_def by simp
    have r1: "r \<le> 1" using lt Tpos unfolding r_def T_def by simp
    have s: "s = rnd r" using sc Tpos unfolding r_def
      by (auto simp: int_truediv_def finite_double_def Let_def split: if_splits)
    have s0: "0 \<le> s" unfolding s by (rule rnd_nonneg[OF r0])
    have s_le: "s \<le> r * (1 + 1 / 2 ^ 53) + 1 / 2 ^ 1075"
      unfolding s by (rule rnd_upper_rel[OF r0])
    note bf = scaled_count_bound[OF fm f0 s0 r0 r1 s_le]
    note bm = scaled_count_bound[OF mm m0 s0 r0 r1 s_le]
    have "(real_of_int m + real_of_int f) * r = real_of_int C"
      using Tpos unfolding r_def T_def by simp
    then have "real_of_int m * r * (1 + 4 * (1 / 2 ^ 53)) + real_of_int f * r * (1 + 4 * (1 / 2 ^ 53))
        = real_of_int C * (1 + 4 * (1 / 2 ^ 53))"
      by (simp only: distrib_right[symmetric])
    also have "\<dots> = real_of_int C + real_of_int C / 2 ^ 51" by (simp add: algebra_simps)
    also have "\<dots> \<le> real_of_int C + 1 / 2"
    proof -
      have "real_of_int C \<le> real_of_int (2 ^ 50)" using C50 unfolding C_def
        by (simp only: of_int_le_iff)
      then have "real_of_int C / 2 ^ 51 \<le> 2 ^ 50 / 2 ^ 51" by (intro divide_right_mono) auto
      then show ?thesis by simp
    qed
    finally have sum: "real_of_int m * r * (1 + 4 * (1 / 2 ^ 53))
        + real_of_int f * r * (1 + 4 * (1 / 2 ^ 53)) \<le> real_of_int C + 1 / 2" .
    have eta: "(1::real) / 2 ^ 1075 \<le> 1 / 2 ^ 51" by simp
    have "real_of_int m' + real_of_int f' < real_of_int C + 1"
      by (rule capacity_sum_aux[OF bm(2) bf(2) sum bm(3) bf(3) eta])
    then have "real_of_int (m' + f') < real_of_int (C + 1)" by simp
    then have "m' + f' < C + 1" by (simp only: of_int_less_iff)
    then show ?thesis using bm(1) bf(1) by simp
  qed
  show "carrying_capacity p < m + f \<Longrightarrow> m' + f' \<le> carrying_capacity p"
    using main unfolding C_def by simp
  show "0 \<le> m'"
  proof (cases "C < m + f")
    case True then show ?thesis using main by simp
  next
    case False then show ?thesis using u m0 unfolding C_def by simp
  qed
  show "0 \<le> f'"
  proof (cases "C < m + f")
    case True then show ?thesis using main by simp
  next
    case False then show ?thesis using u f0 unfolding C_def by simp
  qed
qed

section \<open>What the loop appends to the histories\<close>

lemma record_counts_sel:
  "males (record_counts st (m, f)) = m"
  "females (record_counts st (m, f)) = f"
  "male_counts (record_counts st (m, f)) = male_counts st @ [m]"
  "female_counts (record_counts st (m, f)) = female_counts st @ [f]"
  "total_population (record_counts st (m, f)) = total_population st @ [m + f]"
  by (simp_all add: record_counts_def)

lemma step_counts:
  assumes st: "step p cooling t st = Inr st'"
    and wf: "0 \<le> carrying_capacity p" "carrying_capacity p \<le> 2 ^ 50"
      "0 \<le> average_eggs_per_female p" "0 \<le> hatchling_survival_rate p"
      "adult_mortality_rate p \<le> 1" "female_mortality_rate p \<le> 1"
      "male_mortality_rate_warm p \<le> 1"
    and cur: "0 \<le> males st" "0 \<le> females st"
    and hist: "\<forall>x\<in>set (female_counts st). 0 \<le> x"
  shows "\<exists>m f. st' = record_counts st (m, f) \<and> 0 \<le> m \<and> 0 \<le> f
            \<and> m + f \<le> carrying_capacity p"
proof -
  from st obtain mature nm nf nm' nf' fem ms' fem' v where
    mf: "mature_females p (female_counts st) (females st) = Inr mature"
    and rp: "reproduction p mature (males st) (get_female_ratio t) = Inr (nm, nf)"
    and cg: "collapse_guard (males st) (nm, nf, females st) = Inr (nm', nf', fem)"
    and mo: "mortality p cooling (males st, fem) = Inr (ms', fem')"
    and cc: "capacity_constraint p (extinction_rule (ms' + nm', fem' + nf')) = Inr v"
    and st': "st' = record_counts st v"
    by (rule step_Inr_stages)
  have m0: "0 \<le> mature" by (rule mature_females_nonneg[OF mf hist cur(2)])
  note n = reproduction_nonneg[OF rp m0 cur(1) get_female_ratio_range wf(3,4)]
  note g = collapse_guard_nonneg[OF cg n cur(2)]
  note d = mortality_nonneg[OF mo cur(1) g(3) wf(5,6,7)]
  obtain M F where ex: "extinction_rule (ms' + nm', fem' + nf') = (M, F)"
    by (cases "extinction_rule (ms' + nm', fem' + nf')")
  have "0 \<le> ms' + nm'" "0 \<le> fem' + nf'" using d g by simp_all
  note e = extinction_rule_nonneg[OF ex this]
  obtain m f where v: "v = (m, f)" by (cases v)
  note b = capacity_constraint_bound[OF cc[unfolded ex v] e wf(1,2)]
  have "m + f \<le> carrying_capacity p"
  proof (cases "carrying_capacity p < M + F")
    case True
    then show ?thesis by (rule b(3))
  next
    case False
    then have "m = M \<and> f = F" using b(4) by simp
    then show ?thesis using False by simp
  qed
  then show ?thesis using st' v b(1,2) by blast
qed

lemma sim_loop_counts:
  assumes wf: "0 \<le> carrying_capacity p" "carrying_capacity p \<le> 2 ^ 50"
      "0 \<le> average_eggs_per_female p" "0 \<le> hatchling_survival_rate p"
      "adult_mortality_rate p \<le> 1" "female_mortality_rate p \<le> 1"
      "male_mortality_rate_warm p \<le> 1"
  shows "sim_loop p cooling temps st = Inr st' \<Longrightarrow>
    0 \<le> males st \<Longrightarrow> 0 \<le> females st \<Longrightarrow>
    (\<forall>x\<in>set (female_counts st). 0 \<le> x) \<Longrightarrow>
    \<exists>pairs. male_counts st' = male_counts st @ map fst pairs
        \<and> female_counts st' = female_counts st @ map snd pairs
        \<and> total_population st' = total_population st @ map (\<lambda>(m, f). m + f) pairs
        \<and> length pairs \<le> length temps
        \<and> (\<forall>(m, f)\<in>set pairs. 0 \<le> m \<and> 0 \<le> f \<and> m + f \<le> carrying_capacity p)"
proof (induction temps arbitrary: st)
  case Nil
  then have "st' = st" by simp
  then show ?case by (intro exI[of _ "[]"]) simp
next
  case (Cons t temps)
  show ?case
  proof (cases "males st < 1 \<or> females st < 1")
    case True
    then have "st' = st" using Cons.prems(1) by simp
    then show ?thesis by (intro exI[of _ "[]"]) simp
  next
    case False
    then obtain st1 where s1: "step p cooling t st = Inr st1"
      and l1: "sim_loop p cooling temps st1 = Inr st'"
      using Cons.prems(1) by (auto simp: and_then_Inr)
    obtain m f where r: "st1 = record_counts st (m, f)" and mf: "0 \<le> m" "0 \<le> f"
      "m + f \<le> carrying_capacity p"
      using step_counts[OF s1 wf Cons.prems(2,3,4)] by blast
    have h1: "\<forall>x\<in>set (female_counts st1). 0 \<le> x"
      using Cons.prems(4) mf(2) unfolding r by (simp add: record_counts_sel)
    have c1: "0 \<le> males st1" "0 \<le> females st1" using mf unfolding r
      by (simp_all add: record_counts_sel)
    obtain pairs where p: "male_counts st' = male_counts st1 @ map fst pairs"
      "female_counts st' = female_counts st1 @ map snd pairs"
      "total_population st' = total_population st1 @ map (\<lambda>(m, f). m + f) pairs"
      "length pairs \<le> length temps"
      "\<forall>(m, f)\<in>set pairs. 0 \<le> m \<and> 0 \<le> f \<and> m + f \<le> carrying_capacity p"
      using Cons.IH[OF l1 c1 h1] by blast
    show ?thesis
      using p mf unfolding r
      by (intro exI[of _ "(m, f) # pairs"]) (simp add: record_counts_sel)
  qed
qed

lemma initial_state_sel:
  "males (initial_state p) = initial_males p"
  "females (initial_state p) = initial_females p"
  "male_counts (initial_state p) = [initial_males p]"
  "female_counts (initial_state p) = [initial_females p]"
  "total_population (initial_state p) = [initial_males p + initial_females p]"
  by (simp_all add: initial_state_def)

lemma initial_counts_nonneg:
  assumes "0 \<le> initial_population p"
  shows "0 \<le> initial_males p" "0 \<le> initial_females p"
  using assms by (simp_all add: initial_males_def initial_females_def)

section \<open>Males survive the capacity scaling\<close>

text \<open>
  On the module constants a step that leaves at least one male before the capacity
  constraint records at least one male: with at most five males the total stays below the
  capacity and nothing is scaled; with six or more, at least four males survive and the
  total is at most a few hundred times the males, so that the scaled male count does not
  truncate to 0.
\<close>

lemma int_mul_float_le:
  assumes imf: "int_mul_float n c = Inr k" and n: "0 \<le> n" "n < 2 ^ 53" and c: "c \<le> 1"
  shows "k \<le> n"
proof -
  have e: "rnd (real_of_int n) = real_of_int n" using n by (intro rnd_of_int) simp
  have "real_of_int n * c \<le> real_of_int n" using n(1) c
    by (simp add: mult_left_le)
  then have "rnd (real_of_int n * c) \<le> rnd (real_of_int n)" by (rule rnd_mono)
  then have "rnd (rnd (real_of_int n) * c) \<le> real_of_int n" unfolding e .
  then have "\<lfloor>rnd (rnd (real_of_int n) * c)\<rfloor> \<le> n" by (simp add: floor_le_iff)
  moreover have "0 \<le> rnd (rnd (real_of_int n) * c) \<or> rnd (rnd (real_of_int n) * c) < 0"
    by linarith
  ultimately show ?thesis
    using int_mul_float_Inr(3)[OF imf] n(1)
    by (auto simp: py_int_def split: if_splits) linarith?
qed

lemma below_rounded_aux:
  fixes x y d h :: real
  assumes "3 * y \<le> x" "d \<le> x / 2" "h \<le> y / 2"
  shows "y \<le> x - d - h"
  using assms by linarith

lemma scaled_males_pos:
  assumes sc: "int_truediv C T = Inr s" and imf: "int_mul_float M s = Inr M2"
    and M: "1 \<le> M" "M < 2 ^ 20" and T: "0 < T" and C: "0 \<le> C" "C < 2 ^ 53"
    and r: "3 * T \<le> C * M"
  shows "1 \<le> M2"
proof -
  define x where "x = real_of_int C / real_of_int T"
  define y where "y = 1 / real_of_int M"
  have s: "s = rnd x" using sc int_truediv_pos[OF C T] unfolding x_def by simp
  have Mr: "1 \<le> real_of_int M" using M(1) by simp
  have Tr: "0 < real_of_int T" using T by simp
  have "real_of_int (3 * T) \<le> real_of_int (C * M)" using r by (simp only: of_int_le_iff)
  then have r': "3 * real_of_int T \<le> real_of_int C * real_of_int M" by simp
  have x0: "0 \<le> x" unfolding x_def using C(1) Tr by simp
  have "3 * y \<le> x" unfolding x_def y_def using r' Mr Tr
    by (simp add: field_simps)
  moreover have "x / 2 ^ 53 \<le> x / 2"
    using x0 by (intro divide_left_mono) simp_all
  moreover have "1 / 2 ^ 1075 \<le> y / 2"
  proof -
    have "real_of_int M < 2 ^ 20" by (rule real_less_pow2[OF M(2)])
    then have "1 / 2 ^ 20 \<le> y" unfolding y_def using Mr
      by (simp add: field_simps)
    then have a: "1 / 2 ^ 21 \<le> y / 2" by simp
    have b: "(1::real) / 2 ^ 1075 \<le> 1 / 2 ^ 21"
      by (intro divide_left_mono power_increasing) simp_all
    show ?thesis by (rule order_trans[OF b a])
  qed
  ultimately have "y \<le> x - x / 2 ^ 53 - 1 / 2 ^ 1075" by (rule below_rounded_aux)
  moreover have "x - x / 2 ^ 53 - 1 / 2 ^ 1075 \<le> rnd x" using rnd_error[OF x0] by linarith
  ultimately have ys: "y \<le> s" unfolding s by linarith
  have e: "rnd (real_of_int M) = real_of_int M" using M by (intro rnd_of_int) simp
  have "real_of_int M * y \<le> real_of_int M * s" using ys Mr by (intro mult_left_mono) simp_all
  moreover have "real_of_int M * y = 1" unfolding y_def using Mr by simp
  ultimately have "1 \<le> real_of_int M * s" by simp
  then have "1 \<le> rnd (rnd (real_of_int M) * s)" unfolding e by (rule rnd_ge_one)
  then show ?thesis using int_mul_float_Inr(3)[OF imf] by (simp add: py_int_def le_floor_iff)
qed

lemma div_times_bounds:
  fixes a b :: int
  assumes "0 < b"
  shows "b * (a div b) \<le> a" "a - b < b * (a div b)"
proof -
  have e: "b * (a div b) + a mod b = a" by simp
  have "0 \<le> a mod b" "a mod b < b" using assms by simp_all
  then show "b * (a div b) \<le> a" "a - b < b * (a div b)" using e by linarith+
qed

lemma reproduction_source:
  assumes rp: "reproduction source_params mature m fr = Inr (nm, nf)"
    and mat: "0 \<le> mature" and m: "0 \<le> m" "m \<le> 2000" and fr: "0 \<le> fr" "fr \<le> 1"
  shows "0 \<le> nm" "0 \<le> nf" "nm \<le> 80 * m" "nf \<le> 80 * m"
proof -
  define pairs where "pairs = min mature m"
  obtain so where so: "int_mul_float (pairs * 100) (rnd (4 / 5)) = Inr so"
    and nm: "int_mul_float so (rnd (1 - fr)) = Inr nm"
    and nf: "int_mul_float so fr = Inr nf"
    using rp unfolding pairs_def
    by (auto simp: reproduction_def Let_def and_then_Inr source_params_sel)
  have p: "0 \<le> pairs" "pairs \<le> m" using mat m unfolding pairs_def by simp_all
  have "0 \<le> pairs * 100" "pairs * 100 < 2 ^ 40" using p m by simp_all
  from times_four_fifths[OF this] so have "so = pairs * 100 * 4 div 5" by simp
  moreover have "pairs * 100 * 4 = 80 * pairs * 5" by simp
  ultimately have so_eq: "so = 80 * pairs" by simp
  have so0: "0 \<le> so" "so < 2 ^ 53" "so \<le> 80 * m" using p m unfolding so_eq by simp_all
  have r0: "0 \<le> rnd (1 - fr)" using fr by (intro rnd_nonneg) simp
  have r1: "rnd (1 - fr) \<le> 1" using fr by (intro rnd_le_one) simp
  show "0 \<le> nm" by (rule int_mul_float_nonneg[OF nm so0(1) r0])
  show "0 \<le> nf" by (rule int_mul_float_nonneg[OF nf so0(1) fr(1)])
  show "nm \<le> 80 * m" using int_mul_float_le[OF nm so0(1,2) r1] so0(3) by linarith
  show "nf \<le> 80 * m" using int_mul_float_le[OF nf so0(1,2) fr(2)] so0(3) by linarith
qed

lemma survivors_aux:
  fixes m a :: int
  assumes "10 * a \<le> 9 * m" "9 * m - 10 < 10 * a" "0 \<le> m"
  shows "a \<le> m" "4 * m - 5 < 5 * a"
  using assms by linarith+

lemma survivors_aux':
  fixes m a :: int
  assumes "5 * a \<le> 4 * m" "4 * m - 5 < 5 * a" "0 \<le> m"
  shows "a \<le> m"
  using assms by linarith

lemma survivors_aux'':
  fixes f g h :: int
  assumes "10 * g \<le> 9 * f" "20 * h \<le> 19 * g" "0 \<le> g"
  shows "10 * h \<le> 9 * f"
  using assms by linarith

lemma mortality_source_bounds:
  assumes mo: "mortality source_params cooling (m, fem) = Inr (ms', fem')"
    and m: "0 \<le> m" "m \<le> 2000" and f: "0 \<le> fem" "fem \<le> 2000"
  shows "0 \<le> ms' \<and> ms' \<le> m \<and> 4 * m - 5 < 5 * ms' \<and> 0 \<le> fem' \<and> 10 * fem' \<le> 9 * fem"
proof -
  have m40: "m < 2 ^ 40" and f40: "fem < 2 ^ 40" using m f by simp_all
  note s = mortality_source[OF m(1) m40 f(1) f40]
  define a5 where "a5 = m * 4 div 5"
  define a10 where "a10 = m * 9 div 10"
  define g where "g = fem * 9 div 10"
  define h where "h = g * 19 div 20"
  have d5: "5 * a5 \<le> 4 * m" "4 * m - 5 < 5 * a5"
    using div_times_bounds[of 5 "m * 4"] unfolding a5_def by (simp_all add: mult.commute)
  have d10: "10 * a10 \<le> 9 * m" "9 * m - 10 < 10 * a10"
    using div_times_bounds[of 10 "m * 9"] unfolding a10_def by (simp_all add: mult.commute)
  have g10: "10 * g \<le> 9 * fem"
    using div_times_bounds(1)[of 10 "fem * 9"] unfolding g_def by (simp add: mult.commute)
  have h20: "20 * h \<le> 19 * g"
    using div_times_bounds(1)[of 20 "g * 19"] unfolding h_def by (simp add: mult.commute)
  have n: "0 \<le> a5" "0 \<le> a10" "0 \<le> g"
    using m f unfolding a5_def a10_def g_def by (simp_all add: pos_imp_zdiv_nonneg_iff)
  then have nh: "0 \<le> h" unfolding h_def by (simp add: pos_imp_zdiv_nonneg_iff)
  show ?thesis
  proof (cases cooling)
    case True
    then have e: "ms' = a10" "fem' = h" using mo s(2) unfolding a10_def h_def g_def by simp_all
    show ?thesis unfolding e
      using n nh survivors_aux[OF d10 m(1)] survivors_aux''[OF g10 h20 n(3)] by simp
  next
    case False
    then have e: "ms' = a5" "fem' = g" using mo s(1) unfolding a5_def g_def by simp_all
    show ?thesis unfolding e
      using n survivors_aux'[OF d5 m(1)] d5(2) g10 by simp
  qed
qed

lemma guarded_total_aux:
  fixes m f fem ms' fem' nm nf nm' nf' :: int
  assumes "m \<le> 5" "1 \<le> m" "m + f \<le> 2000" "20 * fem \<le> 17 * f" "ms' \<le> m"
    "10 * fem' \<le> 9 * fem" "nm \<le> 80 * m" "nf \<le> 80 * m" "2 * nm' \<le> nm" "2 * nf' \<le> nf"
  shows "ms' + nm' + (fem' + nf') \<le> 2000"
  using assms by linarith

lemma unguarded_total_aux:
  fixes m f ms' fem' nm nf :: int
  assumes "6 \<le> m" "m \<le> 2000" "f \<le> 2000" "ms' \<le> m" "4 * m - 5 < 5 * ms'"
    "10 * fem' \<le> 9 * f" "0 \<le> nm" "nm \<le> 80 * m" "nf \<le> 80 * m"
  shows "4 \<le> ms' + nm" "ms' + nm < 1048576"
    "3 * (ms' + nm + (fem' + nf)) \<le> 2000 * (ms' + nm)"
proof -
  show "4 \<le> ms' + nm" "ms' + nm < 1048576" using assms by linarith+
  have a: "3 * fem' \<le> 5400" using assms(3,6) by linarith
  have b: "3 * nf \<le> 240 * m" using assms(9) by linarith
  have c: "4 * m - 4 \<le> 5 * ms'" using assms(5) by linarith
  have d: "5400 + 240 * m \<le> 1997 * ms'" using c assms(1) by linarith
  have e: "3 * (ms' + nm + (fem' + nf)) = 3 * ms' + 3 * nm + 3 * fem' + 3 * nf" by simp
  have g: "2000 * (ms' + nm) = 2000 * ms' + 2000 * nm" by simp
  show "3 * (ms' + nm + (fem' + nf)) \<le> 2000 * (ms' + nm)"
    unfolding e g using a b d assms(7) by linarith
qed

lemma halved_count:
  fixes n :: int
  assumes "0 \<le> n"
  shows "2 * max 0 (n div 2) \<le> n"
  using assms div_times_bounds(1)[of 2 n] by (simp add: max_def)

lemma capacity_source_males:
  assumes cc: "capacity_constraint source_params (M, F) = Inr (M2, F2)"
    and M: "1 \<le> M" "M < 1048576" and F: "0 \<le> F"
    and r: "3 * (M + F) \<le> 2000 * M"
  shows "1 \<le> M2"
proof (cases "2000 < M + F")
  case True
  then obtain s where sc: "int_truediv 2000 (M + F) = Inr s"
    and m2: "int_mul_float M s = Inr M2"
    using cc by (auto simp: capacity_constraint_def Let_def and_then_Inr source_params_sel)
  have T: "0 < M + F" using True by simp
  have M20: "M < 2 ^ 20" using M(2) by simp
  show ?thesis by (rule scaled_males_pos[OF sc m2 M(1) M20 T _ _ r]) simp_all
next
  case False
  then have "M2 = M" using cc
    by (simp add: capacity_constraint_def Let_def source_params_sel)
  then show ?thesis using M(1) by simp
qed

lemma step_source_males:
  assumes st: "step source_params cooling t st = Inr st'"
    and cur: "1 \<le> males st" "0 \<le> females st" "males st + females st \<le> 2000"
    and hist: "\<forall>x\<in>set (female_counts st). 0 \<le> x"
  shows "males st' = 0 \<longrightarrow> females st' = 0"
proof -
  define m where "m = males st"
  define f where "f = females st"
  note c = cur[folded m_def f_def]
  from st obtain mature nm nf nm' nf' fem ms' fem' v where
    mf: "mature_females source_params (female_counts st) f = Inr mature"
    and rp: "reproduction source_params mature m (get_female_ratio t) = Inr (nm, nf)"
    and cg: "collapse_guard m (nm, nf, f) = Inr (nm', nf', fem)"
    and mo: "mortality source_params cooling (m, fem) = Inr (ms', fem')"
    and cc: "capacity_constraint source_params (extinction_rule (ms' + nm', fem' + nf')) = Inr v"
    and st': "st' = record_counts st v"
    unfolding m_def f_def by (rule step_Inr_stages)
  obtain M2 F2 where v: "v = (M2, F2)" by (cases v)
  have sel: "males st' = M2" "females st' = F2" unfolding st' v by (simp_all add: record_counts_sel)
  have m0: "0 \<le> m" "m \<le> 2000" "f \<le> 2000" using c by simp_all
  have mat: "0 \<le> mature" by (rule mature_females_nonneg[OF mf hist c(2)])
  note n = reproduction_source[OF rp mat m0(1,2) get_female_ratio_range]
  show ?thesis
  proof (cases "m \<le> 5")
    case True
    have e: "rnd (85 / 100) = rnd (17 / 20)" by simp
    from cg True have fem: "int_mul_float f (rnd (17 / 20)) = Inr fem"
      and h: "nm' = max 0 (nm div 2)" "nf' = max 0 (nf div 2)"
      by (auto simp: collapse_guard_def and_then_Inr e)
    have f40: "f < 2 ^ 40" using m0(3) by simp
    have "fem = f * 17 div 20" using times_seventeen_twentieths[OF c(2) f40] fem by simp
    then have f17: "20 * fem \<le> 17 * f" "0 \<le> fem"
      using div_times_bounds(1)[of 20 "f * 17"] c(2)
      by (simp_all add: mult.commute pos_imp_zdiv_nonneg_iff)
    have fem2000: "fem \<le> 2000" using f17(1) m0(3) c(2) by linarith
    note b = mortality_source_bounds[OF mo m0(1,2) f17(2) fem2000]
    have hn: "2 * nm' \<le> nm" "2 * nf' \<le> nf" "0 \<le> nm'" "0 \<le> nf'"
      unfolding h using halved_count n(1,2) by simp_all
    have tot: "ms' + nm' + (fem' + nf') \<le> 2000"
      using True c(1,3) f17(1) b n(3,4) hn(1,2) by (intro guarded_total_aux[of m f fem ms' fem' nm nf]) simp_all
    obtain M F where ex: "extinction_rule (ms' + nm', fem' + nf') = (M, F)"
      by (cases "extinction_rule (ms' + nm', fem' + nf')")
    have F0: "0 \<le> fem' + nf'" using b hn(4) by simp
    have MF: "M = ms' + nm'" "F \<le> fem' + nf'" "M = 0 \<longrightarrow> F = 0"
      using ex F0 by (auto simp: extinction_rule_def split: if_splits)
    have "M + F \<le> 2000" using MF(1,2) tot by linarith
    then have "M2 = M" "F2 = F" using cc unfolding ex v
      by (simp_all add: capacity_constraint_def Let_def source_params_sel)
    then show ?thesis using MF(3) sel by simp
  next
    case False
    then have m6: "6 \<le> m" by simp
    from cg False have h: "nm' = nm" "nf' = nf" "fem = f"
      by (auto simp: collapse_guard_def)
    note b = mortality_source_bounds[OF mo[unfolded h] m0(1,2) c(2) m0(3)]
    note u = unguarded_total_aux[OF m6 m0(2,3) _ _ _ n(1,3,4), of ms' fem']
    have u1: "4 \<le> ms' + nm" "ms' + nm < 1048576"
      "3 * (ms' + nm + (fem' + nf)) \<le> 2000 * (ms' + nm)"
      using u b by simp_all
    have ex: "extinction_rule (ms' + nm', fem' + nf') = (ms' + nm, fem' + nf)"
      using u1(1) unfolding h by (simp add: extinction_rule_def)
    have F0: "0 \<le> fem' + nf" using b n(2) by simp
    have M1: "1 \<le> ms' + nm" using u1(1) by simp
    have "1 \<le> M2"
      by (rule capacity_source_males[OF cc[unfolded ex v] M1 u1(2) F0 u1(3)])
    then show ?thesis using sel by simp
  qed
qed

lemma source_params_wf:
  "0 \<le> carrying_capacity source_params" "carrying_capacity source_params \<le> 2 ^ 50"
  "0 \<le> average_eggs_per_female source_params" "0 \<le> hatchling_survival_rate source_params"
  "adult_mortality_rate source_params \<le> 1" "female_mortality_rate source_params \<le> 1"
  "male_mortality_rate_warm source_params \<le> 1"
  by (simp_all add: source_params_sel rnd_le_one rnd_nonneg)

lemma sim_loop_source_males:
  "sim_loop source_params cooling temps st = Inr st' \<Longrightarrow>
    0 \<le> males st \<Longrightarrow> 0 \<le> females st \<Longrightarrow> males st + females st \<le> 2000 \<Longrightarrow>
    (\<forall>x\<in>set (female_counts st). 0 \<le> x) \<Longrightarrow>
    \<exists>pairs. male_counts st' = male_counts st @ map fst pairs
        \<and> female_counts st' = female_counts st @ map snd pairs
        \<and> (\<forall>(m, f)\<in>set pairs. m = 0 \<longrightarrow> f = 0)"
proof (induction temps arbitrary: st)
  case Nil
  then have "st' = st" by simp
  then show ?case by (intro exI[of _ "[]"]) simp
next
  case (Cons t temps)
  show ?case
  proof (cases "males st < 1 \<or> females st < 1")
    case True
    then have "st' = st" using Cons.prems(1) by simp
    then show ?thesis by (intro exI[of _ "[]"]) simp
  next
    case False
    then obtain st1 where s1: "step source_params cooling t st = Inr st1"
      and l1: "sim_loop source_params cooling temps st1 = Inr st'"
      using Cons.prems(1) by (auto simp: and_then_Inr)
    have m1: "1 \<le> males st" using False by simp
    obtain m f where r: "st1 = record_counts st (m, f)" and mf: "0 \<le> m" "0 \<le> f"
      "m + f \<le> carrying_capacity source_params"
      using step_counts[OF s1 source_params_wf Cons.prems(2,3,5)] by blast
    have z: "m = 0 \<longrightarrow> f = 0"
      using step_source_males[OF s1 m1 Cons.prems(3,4,5)] unfolding r
      by (simp add: record_counts_sel)
    have h1: "\<forall>x\<in>set (female_counts st1). 0 \<le> x"
      using Cons.prems(5) mf(2) unfolding r by (simp add: record_counts_sel)
    have c1: "0 \<le> males st1" "0 \<le> females st1" "males st1 + females st1 \<le> 2000"
      using mf unfolding r by (simp_all add: record_counts_sel source_params_sel)
    obtain pairs where p: "male_counts st' = male_counts st1 @ map fst pairs"
      "female_counts st' = female_counts st1 @ map snd pairs"
      "\<forall>(m, f)\<in>set pairs. m = 0 \<longrightarrow> f = 0"
      using Cons.IH[OF l1 c1 h1] by blast
    show ?thesis
      using p z unfolding r
      by (intro exI[of _ "(m, f) # pairs"]) (simp add: record_counts_sel)
  qed
qed

section \<open>The first step of the warming scenario\<close>

text \<open>
  Claim C1. With the constants of the source (250 males, 250 females, carrying capacity
  2000, maturity age 4, hatchling survival 0.8, 100 eggs per female, adult mortality 0.1,
  warm male mortality 0.2), the warming scenario and a first temperature of 29.0, the
  female ratio is 0.5, the mature females are the 250 current ones, 250 pairs give 20000
  surviving offspring, split into 10000 new males and 10000 new females; the guard
  leaves them unchanged; mortality leaves 200 males and 225 females; with the newborns
  these are 10200 and 10225; the capacity scaling by 2000 / 20425 records 998 males and
  1001 females, and the run over this single temperature returns these counts.
\<close>

theorem C1_first_warming_step:
  "get_female_ratio 29 = 1 / 2
   \<and> mature_females source_params [250] 250 = Inr 250
   \<and> int_mul_float (min 250 250 * average_eggs_per_female source_params)
        (hatchling_survival_rate source_params) = Inr 20000
   \<and> reproduction source_params 250 250 (1 / 2) = Inr (10000, 10000)
   \<and> collapse_guard 250 (10000, 10000, 250) = Inr (10000, 10000, 250)
   \<and> mortality source_params False (250, 250) = Inr (200, 225)
   \<and> extinction_rule (200 + 10000, 225 + 10000) = (10200, 10225)
   \<and> int_truediv 2000 (10200 + 10225) = Inr (rnd (2000 / 20425))
   \<and> capacity_constraint source_params (10200, 10225) = Inr (998, 1001)
   \<and> step source_params False 29 (initial_state source_params) =
       Inr \<lparr>males = 998, females = 1001, male_counts = [250, 998],
            female_counts = [250, 1001], total_population = [500, 1999]\<rparr>
   \<and> simulate_population source_params [29] False =
       Inr ([29], [250, 998], [250, 1001], [500, 1999])"
proof -
  have mf: "mature_females source_params [250] 250 = Inr 250"
    by (simp add: mature_females_def source_params_sel)
  have so: "int_mul_float (min 250 250 * average_eggs_per_female source_params)
        (hatchling_survival_rate source_params) = Inr 20000"
    by (simp add: source_params_sel surviving_250)
  have cg: "collapse_guard 250 (10000, 10000, 250) = Inr (10000, 10000, 250)"
    by (simp add: collapse_guard_def)
  have ex: "extinction_rule (200 + 10000, 225 + 10000) = (10200, 10225)"
    by (simp add: extinction_rule_def)
  have sc: "int_truediv 2000 (10200 + 10225) = Inr (rnd (2000 / 20425))"
    using scale_20425 by simp
  show ?thesis
    using gfr29 mf so repro_250 cg mort_250 ex sc cap_20425 warm_step_29 warm_run_29
    by blast
qed


section \<open>The lagged lookup of the mature females\<close>

text \<open>
  Claim C6. The history \<open>fc\<close> holds the recorded female counts, the initial one first,
  so the generation being computed has index \<open>length fc\<close>. For a maturity age of at
  least 1, the mature-female count is the entry recorded \<open>maturity_age\<close> generations
  before it whenever the history has at least \<open>maturity_age\<close> entries, and the current
  female count otherwise; the lookup never fails.
\<close>

theorem C6_mature_females_lag:
  assumes "1 \<le> maturity_age p"
  shows "mature_females p fc fem =
     (if nat (maturity_age p) \<le> length fc
      then Inr (fc ! (length fc - nat (maturity_age p)))
      else Inr fem)"
proof -
  have "nat (int (length fc) - maturity_age p) = length fc - nat (maturity_age p)"
    using assms by linarith
  then show ?thesis
    using assms by (auto simp: mature_females_def py_index_def)
qed

theorem C6_mature_females_lag_witness:
  "1 \<le> maturity_age source_params
   \<and> mature_females source_params [250, 22, 11, 7] 7 = Inr 250
   \<and> mature_females source_params [250, 22, 11] 11 = Inr 11"
  using C6_mature_females_lag[of source_params "[250, 22, 11, 7]" 7]
    C6_mature_females_lag[of source_params "[250, 22, 11]" 11]
  by (simp add: source_params_sel)

section \<open>The lengths of the returned sequences\<close>

text \<open>
  Claim C2 (the code departs from it). The three count sequences hold the initial state
  and one entry per step, while \<^verbatim>\<open>temp_range[:len(male_counts)]\<close> cannot be longer
  than the schedule: when the schedule is exhausted without an extinction, the returned
  temperatures are one fewer than the recorded states. With the empty schedule the
  lengths are 0 and 1; with the single temperature 29.0 they are 1 and 2.
\<close>

theorem C2_schedule_exhausted_lengths_differ:
  "simulate_population source_params [] False = Inr ([], [250], [250], [500])
   \<and> simulate_population source_params [29] False =
       Inr ([29], [250, 998], [250, 1001], [500, 1999])
   \<and> length ([29] :: real list) < length ([250, 998] :: int list)"
  by (simp add: empty_run warm_run_29 initial_males_def initial_females_def source_params_sel)

section \<open>The mortality stage of the cooling scenario\<close>




section \<open>The collapse guard\<close>

text \<open>
  Claim C7, as stated, fails: the guard does not strictly reduce an offspring count
  that is already 0. With 5 males, no new males, 400 new females and 1994 females (the
  fourth step of the warming run at 5000 degrees) the guarded number of new males is 0,
  which is not below 0.
\<close>

theorem C7_guard_not_strict_counterexample:
  "collapse_guard 5 (0, 400, 1994) = Inr (0, 200, 1694) \<and> \<not> (0::int) < 0"
  by (simp add: collapse_guard_def times_seventeen_twentieths and_then_def)

text \<open>
  Claim C7, amended. For non-negative offspring counts and a female count from 0 up to
  \<open>2 ^ 40\<close>, the guard engages exactly when the current male count is at most 5: then the
  new males and the new females are replaced by their floor halves and the female count
  by \<open>floor (f * 0.85)\<close>; otherwise all three are unchanged. The halves never exceed the
  unguarded counts and are strictly below them when these are positive; the shrunk
  female count is strictly below a positive female count.
\<close>

theorem C7_collapse_guard:
  assumes "0 \<le> nm" "0 \<le> nf" "0 \<le> f" "f < 2 ^ 40"
  shows "collapse_guard ms (nm, nf, f) =
      (if ms \<le> 5 then Inr (nm div 2, nf div 2, \<lfloor>real_of_int f * (85 / 100)\<rfloor>)
       else Inr (nm, nf, f))
    \<and> nm div 2 \<le> nm \<and> nf div 2 \<le> nf
    \<and> (0 < nm \<longrightarrow> nm div 2 < nm) \<and> (0 < nf \<longrightarrow> nf div 2 < nf)
    \<and> (0 < f \<longrightarrow> \<lfloor>real_of_int f * (85 / 100)\<rfloor> < f)"
proof -
  have a: "\<lfloor>real_of_int f * (85 / 100)\<rfloor> = f * 17 div 20"
    using floor_ratio[of 20 f 17] by simp
  have g: "collapse_guard ms (nm, nf, f) =
      (if ms \<le> 5 then Inr (nm div 2, nf div 2, f * 17 div 20) else Inr (nm, nf, f))"
    using assms(1,2)
    by (simp add: collapse_guard_def times_seventeen_twentieths[OF assms(3,4)] and_then_def
        pos_imp_zdiv_nonneg_iff)
  have h: "nm div 2 \<le> nm" "nf div 2 \<le> nf" using assms(1,2) by simp_all
  have s: "0 < nm \<longrightarrow> nm div 2 < nm" "0 < nf \<longrightarrow> nf div 2 < nf"
    using half_less by blast+
  have t: "0 < f \<longrightarrow> \<lfloor>real_of_int f * (85 / 100)\<rfloor> < f"
    using shrink_less by blast
  have g': "collapse_guard ms (nm, nf, f) =
      (if ms \<le> 5 then Inr (nm div 2, nf div 2, \<lfloor>real_of_int f * (85 / 100)\<rfloor>)
       else Inr (nm, nf, f))"
    unfolding a by (rule g)
  show ?thesis using g' h s t by blast
qed

theorem C7_collapse_guard_witness:
  "(0::int) \<le> 2 \<and> (0::int) \<le> 400 \<and> (0::int) \<le> 1994 \<and> (1994::int) < 2 ^ 40
   \<and> (0::int) < 2 \<and> (0::int) < 400 \<and> (0::int) < 1994
   \<and> collapse_guard 5 (2, 400, 1994) = Inr (1, 200, 1694)
   \<and> collapse_guard 6 (2, 400, 1994) = Inr (2, 400, 1994)"
  using C7_collapse_guard[of 2 400 1994 5] C7_collapse_guard[of 2 400 1994 6] by simp

section \<open>Extinction of the females alone\<close>

text \<open>
  Claim C10. The extinction forcing is asymmetric. The rule zeroes the females when the
  males are 0, never changes the male count, and leaves a state with no females and some
  males as it is. Both halves occur in runs of the warming scenario. With four temperatures
  of \<open>- 5000\<close> degrees the fourth recorded state has 1999 males and no females; it is
  appended to the returned sequences and, whatever temperatures follow, the run stops only
  at the check of the next iteration and returns five recorded states. With eight
  temperatures of 5000 degrees the last step, from 1 male and 1035 females, has 0 + 0 males
  and 791 + 40 females after the newborns are added, and the rule makes the recorded state
  0 males and 0 females.
\<close>

theorem C10_females_extinct_males_recorded:
  "simulate_population source_params (- 5000 # - 5000 # - 5000 # - 5000 # rest) False =
     Inr (take 5 (- 5000 # - 5000 # - 5000 # - 5000 # rest),
          [250, 1977, 1988, 1992, 1999], [250, 22, 11, 7, 0], [500, 1999, 1999, 1999, 1999])
   \<and> simulate_population source_params [5000, 5000, 5000, 5000, 5000, 5000, 5000, 5000] False =
     Inr ([5000, 5000, 5000, 5000, 5000, 5000, 5000, 5000],
          [250, 19, 9, 5, 4, 3, 2, 1, 0],
          [250, 1980, 1990, 1994, 1724, 1478, 1250, 1035, 0],
          [500, 1999, 1999, 1999, 1728, 1481, 1252, 1036, 0])
   \<and> reproduction source_params 1724 1 1 = Inr (0, 80)
   \<and> collapse_guard 1 (0, 80, 1035) = Inr (0, 40, 879)
   \<and> mortality source_params False (1, 879) = Inr (0, 791)
   \<and> extinction_rule (0, 831) = (0, 0)
   \<and> extinction_rule (0, f) = (0, 0)
   \<and> fst (extinction_rule (m, f)) = m
   \<and> extinction_rule (m, 0) = (m, 0)"
proof -
  have cold: "simulate_population source_params (- 5000 # - 5000 # - 5000 # - 5000 # rest) False =
     Inr (take 5 (- 5000 # - 5000 # - 5000 # - 5000 # rest),
          [250, 1977, 1988, 1992, 1999], [250, 22, 11, 7, 0], [500, 1999, 1999, 1999, 1999])"
    unfolding simulate_population_def cold_loop by (simp add: and_then_def)
  have rule: "extinction_rule (0, f) = (0, 0)" "fst (extinction_rule (m, f)) = m"
    "extinction_rule (m, 0) = (m, 0)" for f
    by (simp_all add: extinction_rule_def)
  show ?thesis
    by (intro conjI cold hot_run hot_last_stages rule)
qed

section \<open>The sex-ratio function\<close>

text \<open>
  Claim C5, as stated, fails on doubles: at \<open>- 5000\<close> degrees \<^verbatim>\<open>numpy.exp\<close> overflows and
  the ratio is exactly 0; at 5000 and at 6000 degrees it underflows and the ratio is
  exactly 1, so the value is neither strictly between 0 and 1 nor strictly increasing.
\<close>

theorem C5_female_ratio_saturates_counterexample:
  "get_female_ratio (- 5000) = 0 \<and> get_female_ratio 5000 = 1 \<and> get_female_ratio 6000 = 1
   \<and> (5000::real) < 6000"
  by (simp add: gfr_cold gfr_hot get_female_ratio_saturates_high)

text \<open>
  Claim C5, amended. \<open>get_female_ratio\<close> evaluates the logistic expression
  \<open>1 / (1 + exp (- 0.5 * (temp - 29.0)))\<close> in double arithmetic. It returns exactly 0.5 at
  the pivotal temperature 29.0, it is non-decreasing in the temperature, its value lies
  between 0 and 1 inclusive for every finite temperature, and strictly between 0 and 1
  for every temperature within 30 degrees of the pivotal one.
\<close>

theorem C5_female_ratio:
  "get_female_ratio 29 = 1 / 2
   \<and> (\<forall>a b. a \<le> b \<longrightarrow> get_female_ratio a \<le> get_female_ratio b)
   \<and> (\<forall>t. 0 \<le> get_female_ratio t \<and> get_female_ratio t \<le> 1)
   \<and> (\<forall>t. \<bar>t - 29\<bar> \<le> 30 \<longrightarrow> 0 < get_female_ratio t \<and> get_female_ratio t < 1)"
  using gfr29 get_female_ratio_mono get_female_ratio_range get_female_ratio_interior
  by blast

theorem C5_female_ratio_witness:
  "(- 5000 :: real) \<le> 29 \<and> get_female_ratio (- 5000) \<le> get_female_ratio 29
   \<and> \<bar>(29::real) - 29\<bar> \<le> 30 \<and> 0 < get_female_ratio 29 \<and> get_female_ratio 29 < 1"
proof -
  have m: "a \<le> b \<longrightarrow> get_female_ratio a \<le> get_female_ratio b" for a b
    using C5_female_ratio by blast
  have i: "\<bar>t - 29\<bar> \<le> 30 \<longrightarrow> 0 < get_female_ratio t \<and> get_female_ratio t < 1" for t
    using C5_female_ratio by blast
  show ?thesis using m[of "- 5000" 29] i[of 29] by simp
qed

section \<open>No validation of the constants\<close>

text \<open>
  Claim C8, as stated, fails: the code has no validation and no configuration error. A
  carrying capacity of 0 is accepted and the first step runs, recording no turtles; a
  hatchling survival rate of \<open>- 0.8\<close> is accepted and the first step records negative
  counts.
\<close>

theorem C8_malformed_parameters_accepted_counterexample:
  "simulate_population (source_params\<lparr>carrying_capacity := 0\<rparr>) [29] False =
     Inr ([29], [250, 0], [250, 0], [500, 0])
   \<and> simulate_population (source_params\<lparr>hatchling_survival_rate := rnd (- (8 / 10))\<rparr>)
       [29] False =
     Inr ([29], [250, - 9800], [250, - 9775], [500, - 19575])"
  using zero_capacity_run negative_rate_run by simp

text \<open>
  Claim C8, amended. Nothing is validated when a run is set up: with an empty schedule
  every parameter set, malformed or not, returns the initial state; and a malformed
  parameter set can fail in the middle of a run with one of Python's arithmetic errors,
  as a carrying capacity of \<open>- 1\<close> (with no surviving hatchlings and a warm male mortality
  of 1) does with a \<^verbatim>\<open>ZeroDivisionError\<close> in the capacity stage of the first step.
\<close>

theorem C8_no_validation:
  "(\<forall>p cooling. simulate_population p [] cooling =
       Inr ([], [initial_males p], [initial_females p], [initial_males p + initial_females p]))
   \<and> simulate_population
       (source_params\<lparr>carrying_capacity := - 1, hatchling_survival_rate := 0,
          male_mortality_rate_warm := 1\<rparr>) [29] False = Inl ZeroDivisionError"
  using empty_run division_by_zero_run by blast

section \<open>Non-negative counts and the capacity bound\<close>

text \<open>
  Claim C4. For every run that returns, on constants with a non-negative initial population,
  a capacity between 0 and \<open>2 ^ 50\<close>, non-negative eggs per female and hatchling survival
  rate and mortality rates of at most 1 (the module constants are such), every recorded
  generation has males \<open>\<ge> 0\<close> and females \<open>\<ge> 0\<close>, its recorded total is their sum, and
  every generation recorded by a step, that is after the capacity-constraint stage (index
  \<open>\<ge> 1\<close>; index 0 is the initial state), has males + females \<open>\<le>\<close> \<^verbatim>\<open>carrying_capacity\<close>:
  the proportional scaling followed by the truncation never yields a total above the
  capacity.
\<close>

theorem C4_counts_nonnegative_and_capped:
  assumes "0 \<le> initial_population p"
    and "0 \<le> carrying_capacity p" and "carrying_capacity p \<le> 2 ^ 50"
    and "0 \<le> average_eggs_per_female p" and "0 \<le> hatchling_survival_rate p"
    and "adult_mortality_rate p \<le> 1" and "female_mortality_rate p \<le> 1"
    and "male_mortality_rate_warm p \<le> 1"
    and run: "simulate_population p temp_range cooling = Inr (ts, ms, fs, tot)"
  shows "length fs = length ms \<and> length tot = length ms
      \<and> (\<forall>i<length ms. 0 \<le> ms ! i \<and> 0 \<le> fs ! i \<and> tot ! i = ms ! i + fs ! i)
      \<and> (\<forall>i<length ms. 1 \<le> i \<longrightarrow> ms ! i + fs ! i \<le> carrying_capacity p)"
proof -
  from run obtain st where l: "sim_loop p cooling temp_range (initial_state p) = Inr st"
    and r: "ms = male_counts st" "fs = female_counts st" "tot = total_population st"
    by (auto simp: simulate_population_def and_then_Inr)
  note i0 = initial_counts_nonneg[OF assms(1)]
  have "\<forall>x\<in>set (female_counts (initial_state p)). 0 \<le> x"
    using i0 by (simp add: initial_state_sel)
  from sim_loop_counts[OF assms(2-8) l _ _ this] i0
  obtain pairs where p: "ms = initial_males p # map fst pairs"
    "fs = initial_females p # map snd pairs"
    "tot = (initial_males p + initial_females p) # map (\<lambda>(m, f). m + f) pairs"
    and b: "\<forall>(m, f)\<in>set pairs. 0 \<le> m \<and> 0 \<le> f \<and> m + f \<le> carrying_capacity p"
    unfolding r by (auto simp: initial_state_sel)
  have n: "0 \<le> fst (pairs ! j) \<and> 0 \<le> snd (pairs ! j)
      \<and> fst (pairs ! j) + snd (pairs ! j) \<le> carrying_capacity p" if "j < length pairs" for j
    using b nth_mem[OF that] by (cases "pairs ! j") auto
  have len: "length fs = length ms" "length tot = length ms" "length ms = Suc (length pairs)"
    by (simp_all add: p)
  have e: "0 \<le> ms ! i \<and> 0 \<le> fs ! i \<and> tot ! i = ms ! i + fs ! i
      \<and> (1 \<le> i \<longrightarrow> ms ! i + fs ! i \<le> carrying_capacity p)" if "i < length ms" for i
  proof (cases i)
    case 0
    then show ?thesis using i0 by (simp add: p)
  next
    case (Suc j)
    then have j: "j < length pairs" using that len by simp
    show ?thesis using n[OF j] j unfolding Suc p
      by (simp add: case_prod_beta)
  qed
  show ?thesis using len(1,2) e by blast
qed

theorem C4_counts_nonnegative_and_capped_witness:
  "simulate_population source_params [29] False = Inr ([29], [250, 998], [250, 1001], [500, 1999])
   \<and> 0 \<le> initial_population source_params
   \<and> 0 \<le> carrying_capacity source_params \<and> carrying_capacity source_params \<le> 2 ^ 50
   \<and> 0 \<le> average_eggs_per_female source_params
   \<and> 0 \<le> hatchling_survival_rate source_params
   \<and> adult_mortality_rate source_params \<le> 1
   \<and> female_mortality_rate source_params \<le> 1
   \<and> male_mortality_rate_warm source_params \<le> 1
   \<and> 0 \<le> [250, 998 :: int] ! 1 \<and> 0 \<le> [250, 1001 :: int] ! 1
   \<and> [250, 998 :: int] ! 1 + [250, 1001] ! 1 \<le> carrying_capacity source_params"
proof -
  have r: "rnd (1 / 10) \<le> 1" "rnd (1 / 20) \<le> 1" "rnd (1 / 5) \<le> 1" "0 \<le> rnd (4 / 5)"
    by (simp_all add: rnd_le_one rnd_nonneg)
  show ?thesis
    using C4_counts_nonnegative_and_capped[of source_params "[29]" False
        "[29]" "[250, 998]" "[250, 1001]" "[500, 1999]"] r warm_run_29
    by (simp add: source_params_sel)
qed

section \<open>No females recorded without males\<close>

text \<open>
  Claim C9. After the newborns are added, a male count of 0 forces the female count to 0
  (\<open>extinction_rule\<close>, applied by \<open>step\<close> before the capacity constraint and the
  recording), and in every run of the program on its module constants, for every schedule
  and both scenarios, no recorded state has males = 0 together with females \<open>\<noteq>\<close> 0: the
  capacity scaling that follows the rule never truncates a positive male count to 0.
\<close>

theorem C9_no_females_without_males:
  assumes run: "simulate_population source_params temp_range cooling = Inr (ts, ms, fs, tot)"
  shows "extinction_rule (0, f) = (0, 0) \<and> length fs = length ms
      \<and> (\<forall>i<length ms. ms ! i = 0 \<longrightarrow> fs ! i = 0)"
proof -
  from run obtain st where l: "sim_loop source_params cooling temp_range
        (initial_state source_params) = Inr st"
    and r: "ms = male_counts st" "fs = female_counts st"
    by (auto simp: simulate_population_def and_then_Inr)
  have "\<exists>pairs. male_counts st = male_counts (initial_state source_params) @ map fst pairs
        \<and> female_counts st = female_counts (initial_state source_params) @ map snd pairs
        \<and> (\<forall>(m, f)\<in>set pairs. m = 0 \<longrightarrow> f = 0)"
    by (rule sim_loop_source_males[OF l]) (simp_all add: initial_state_source)
  then obtain pairs where p: "ms = 250 # map fst pairs" "fs = 250 # map snd pairs"
    and b: "\<forall>(m, f)\<in>set pairs. m = 0 \<longrightarrow> f = 0"
    unfolding r by (auto simp: initial_state_source)
  have len: "length fs = length ms" "length ms = Suc (length pairs)" by (simp_all add: p)
  have e: "ms ! i = 0 \<longrightarrow> fs ! i = 0" if "i < length ms" for i
  proof (cases i)
    case 0
    then show ?thesis by (simp add: p)
  next
    case (Suc j)
    then have j: "j < length pairs" using that len by simp
    have "fst (pairs ! j) = 0 \<longrightarrow> snd (pairs ! j) = 0"
      using b nth_mem[OF j] by (cases "pairs ! j") auto
    then show ?thesis using j unfolding Suc p by simp
  qed
  have "extinction_rule (0, f) = (0, 0)" by (simp add: extinction_rule_def)
  then show ?thesis using len(1) e by blast
qed

theorem C9_no_females_without_males_witness:
  "simulate_population source_params [5000, 5000, 5000, 5000, 5000, 5000, 5000, 5000] False =
     Inr ([5000, 5000, 5000, 5000, 5000, 5000, 5000, 5000],
          [250, 19, 9, 5, 4, 3, 2, 1, 0],
          [250, 1980, 1990, 1994, 1724, 1478, 1250, 1035, 0],
          [500, 1999, 1999, 1999, 1728, 1481, 1252, 1036, 0])
   \<and> [250, 19, 9, 5, 4, 3, 2, 1, 0 :: int] ! 8 = 0
   \<and> [250, 1980, 1990, 1994, 1724, 1478, 1250, 1035, 0 :: int] ! 8 = 0
   \<and> extinction_rule (0, 831) = (0, 0)"
  using C9_no_females_without_males[OF hot_run, of 831] hot_run by simp

end
